theory Spec2Isabelle
  imports Complex_Main "HOL-Library.Multiset"
begin

text \<open>
  A shallow embedding of the batch extraction engine of the clinical note miner
  (\<^verbatim>\<open>clinical_note_miner/pipeline.py\<close> and \<^verbatim>\<open>clinical_note_miner/matcher.py\<close>).
  Python dictionaries are association lists in insertion order, exceptions are values of a
  sum type, and the collaborators that live outside the repository (the generation client,
  the JSON decoder, the regular-expression engine, \<^verbatim>\<open>repr\<close>) are parameters.
\<close>

section \<open>Python values\<close>

text \<open>What \<^verbatim>\<open>json.loads\<close> returns: \<^verbatim>\<open>None\<close>, a bool, an int, a float, a str, a list or a
  dict. A dict is its list of items in insertion order (keys are distinct).\<close>

datatype json =
    JNull
  | JBool bool
  | JInt int
  | JFloat real
  | JStr string
  | JArr "json list"
  | JObj "(string \<times> json) list"

text \<open>Python truthiness, as tested by \<^verbatim>\<open>if x:\<close>.\<close>

fun truthy :: "json \<Rightarrow> bool" where
  "truthy JNull = False"
| "truthy (JBool b) = b"
| "truthy (JInt n) = (n \<noteq> 0)"
| "truthy (JFloat x) = (x \<noteq> 0)"
| "truthy (JStr s) = (s \<noteq> [])"
| "truthy (JArr xs) = (xs \<noteq> [])"
| "truthy (JObj kvs) = (kvs \<noteq> [])"

text \<open>The exceptions that the modelled code can raise or let through.\<close>

datatype exc_class =
    TypeError | AttributeError | KeyError | InvalidLineError | RegexError | OtherError

datatype py_exception = Raise exc_class string

text \<open>\<^verbatim>\<open>str(n)\<close> for an integer, as an f-string renders it.\<close>

definition digit_char :: "nat \<Rightarrow> char" where
  "digit_char d = ''0123456789'' ! d"

function str_of_nat :: "nat \<Rightarrow> string" where
  "str_of_nat n =
     (if n < 10 then [digit_char n] else str_of_nat (n div 10) @ [digit_char (n mod 10)])"
  by pat_completeness auto
termination
  by (relation "measure id") auto

declare str_of_nat.simps [simp del]

definition str_of_int :: "int \<Rightarrow> string" where
  "str_of_int i = (if i < 0 then CHR ''-'' # str_of_nat (nat (- i)) else str_of_nat (nat i))"

text \<open>\<^verbatim>\<open>str(x)\<close> for an optional string: \<^verbatim>\<open>None\<close> prints as \<^verbatim>\<open>None\<close>.\<close>

definition str_of_opt :: "string option \<Rightarrow> string" where
  "str_of_opt x = (case x of None \<Rightarrow> ''None'' | Some s \<Rightarrow> s)"

text \<open>\<^verbatim>\<open>needle in haystack\<close> for two strings: a contiguous occurrence.\<close>

fun is_prefix :: "'a list \<Rightarrow> 'a list \<Rightarrow> bool" where
  "is_prefix [] ys = True"
| "is_prefix (x # xs) [] = False"
| "is_prefix (x # xs) (y # ys) = (x = y \<and> is_prefix xs ys)"

fun str_contains :: "'a list \<Rightarrow> 'a list \<Rightarrow> bool" where
  "str_contains needle [] = (needle = [])"
| "str_contains needle (y # ys) = (is_prefix needle (y # ys) \<or> str_contains needle ys)"

text \<open>Dictionaries: \<^verbatim>\<open>d.get(k)\<close>, \<^verbatim>\<open>k in d\<close>, \<^verbatim>\<open>d[k] = v\<close> and \<^verbatim>\<open>d.update(other)\<close>. Assigning to a
  key that is present keeps its position, a new key goes to the end.\<close>

definition dict_get :: "('k \<times> 'v) list \<Rightarrow> 'k \<Rightarrow> 'v option" where
  "dict_get d k = map_of d k"

definition dict_has :: "('k \<times> 'v) list \<Rightarrow> 'k \<Rightarrow> bool" where
  "dict_has d k = (k \<in> set (map fst d))"

fun dict_set :: "('k \<times> 'v) list \<Rightarrow> 'k \<Rightarrow> 'v \<Rightarrow> ('k \<times> 'v) list" where
  "dict_set [] k v = [(k, v)]"
| "dict_set ((k', v') # d) k v = (if k' = k then (k, v) # d else (k', v') # dict_set d k v)"

definition dict_update :: "('k \<times> 'v) list \<Rightarrow> ('k \<times> 'v) list \<Rightarrow> ('k \<times> 'v) list" where
  "dict_update d other = fold (\<lambda>(k, v) acc. dict_set acc k v) other d"

section \<open>Generation client and retrying requester\<close>

text \<open>
  The dictionary that \<^verbatim>\<open>LLMClient.chat_completion\<close> returns. \<open>llm_message\<close> is \<open>None\<close> when
  the key \<^verbatim>\<open>"message"\<close> is absent and \<open>Some c\<close> when \<^verbatim>\<open>result["message"].content\<close> is \<open>c\<close>
  (which may itself be \<^verbatim>\<open>None\<close>); \<open>llm_error\<close> is \<^verbatim>\<open>result.get('error')\<close>. The float
  \<^verbatim>\<open>latency\<close> is left out: it is only summed into the result's \<^verbatim>\<open>latency\<close>.
\<close>

record llm_result =
  llm_success :: bool
  llm_error :: "string option"
  llm_message :: "string option option"
  llm_usage :: "(string \<times> int) list option"
  llm_reasoning_content :: "string option"

text \<open>One awaited call of the client either returns a dictionary or raises an exception
  \<open>e\<close> (an instance of \<^verbatim>\<open>Exception\<close>), of which the code uses \<^verbatim>\<open>str(e)\<close> only. The client may keep
  state of its own (\<open>'s\<close>), so a call takes the state and returns the new one.\<close>

datatype call_outcome = Returned llm_result | Raised string

type_synonym ('s, 'm) chat_completion = "'s \<Rightarrow> 'm \<Rightarrow> call_outcome \<times> 's"

text \<open>The dictionary that \<^verbatim>\<open>_call_llm_with_retry\<close> returns.\<close>

record retry_outcome =
  retry_success :: bool
  retry_result :: "llm_result option"
  retry_errors :: "string list"

text \<open>
  \<^verbatim>\<open>_call_llm_with_retry\<close>: the \<^verbatim>\<open>while attempts <= self.max_retries\<close> loop, with the local
  variables \<open>attempts\<close> and \<open>errors\<close> as arguments. The backoff
  \<^verbatim>\<open>await asyncio.sleep(1 * attempts)\<close> changes no value and has no counterpart here.
\<close>

function call_llm_with_retry_loop ::
  "('s, 'm) chat_completion \<Rightarrow> int \<Rightarrow> 'm \<Rightarrow> int \<Rightarrow> string list \<Rightarrow> 's \<Rightarrow> retry_outcome \<times> 's"
where
  "call_llm_with_retry_loop chat max_retries messages attempts errors s =
     (if attempts \<le> max_retries then
        (case chat s messages of
           (Returned result, s') \<Rightarrow>
             if llm_success result then
               (\<lparr>retry_success = True, retry_result = Some result, retry_errors = errors\<rparr>, s')
             else
               call_llm_with_retry_loop chat max_retries messages (attempts + 1)
                 (errors @ [''Attempt '' @ str_of_int (attempts + 1) @ '': ''
                              @ str_of_opt (llm_error result)]) s'
         | (Raised e, s') \<Rightarrow>
             call_llm_with_retry_loop chat max_retries messages (attempts + 1)
               (errors @ [''Attempt '' @ str_of_int (attempts + 1) @ '': Exception '' @ e]) s')
      else
        (\<lparr>retry_success = False, retry_result = None, retry_errors = errors\<rparr>, s))"
  by pat_completeness auto
termination
  by (relation "measure (\<lambda>(chat, max_retries, messages, attempts, errors, s).
                          nat (max_retries + 1 - attempts))") auto

declare call_llm_with_retry_loop.simps [simp del]

definition call_llm_with_retry ::
  "('s, 'm) chat_completion \<Rightarrow> int \<Rightarrow> 'm \<Rightarrow> 's \<Rightarrow> retry_outcome \<times> 's"
where
  "call_llm_with_retry chat max_retries messages s =
     call_llm_with_retry_loop chat max_retries messages 0 [] s"

subsection \<open>Vocabulary for statements about the requester\<close>

text \<open>The state of the client after \<open>k\<close> consecutive calls with the same messages, and the
  outcome of the call that follows them (attempt number \<open>k + 1\<close>).\<close>

fun state_after :: "('s, 'm) chat_completion \<Rightarrow> 'm \<Rightarrow> 's \<Rightarrow> nat \<Rightarrow> 's" where
  "state_after chat messages s 0 = s"
| "state_after chat messages s (Suc k) = snd (chat (state_after chat messages s k) messages)"

definition outcome_at :: "('s, 'm) chat_completion \<Rightarrow> 'm \<Rightarrow> 's \<Rightarrow> nat \<Rightarrow> call_outcome" where
  "outcome_at chat messages s k = fst (chat (state_after chat messages s k) messages)"

text \<open>An attempt succeeds when the call returns a dictionary whose \<^verbatim>\<open>"success"\<close> is true.\<close>

definition attempt_ok :: "call_outcome \<Rightarrow> bool" where
  "attempt_ok out = (case out of Returned result \<Rightarrow> llm_success result | Raised e \<Rightarrow> False)"

text \<open>The error text of a failed attempt: the client's \<^verbatim>\<open>error\<close> entry, or the exception.\<close>

definition failure_text :: "call_outcome \<Rightarrow> string" where
  "failure_text out =
     (case out of Returned result \<Rightarrow> str_of_opt (llm_error result)
                | Raised e \<Rightarrow> ''Exception '' @ e)"

text \<open>A client that counts the calls made to it, wrapped around any client.\<close>

definition counting :: "('s, 'm) chat_completion \<Rightarrow> (nat \<times> 's, 'm) chat_completion" where
  "counting chat = (\<lambda>(n, s) messages. case chat s messages of (out, s') \<Rightarrow> (out, (Suc n, s')))"

text \<open>
  The two dictionaries that the stand-in client of \<^verbatim>\<open>tests/test_retry_logic.py\<close> returns, and
  the client itself. A failure is \<^verbatim>\<open>{"success": False, "error": "Simulated Failure", ...}\<close>. A
  success is \<^verbatim>\<open>{"response": ..., "latency": 0.1, "success": True}\<close>: it has no \<^verbatim>\<open>"message"\<close>,
  \<^verbatim>\<open>"error"\<close>, \<^verbatim>\<open>"usage"\<close> or \<^verbatim>\<open>"reasoning_content"\<close> key (the stand-in clients of
  \<^verbatim>\<open>tests/test_sync_helper.py\<close> and \<^verbatim>\<open>tests/test_element_batching.py\<close> return a dictionary of the
  same shape). The client counts its calls (\<^verbatim>\<open>self.attempts += 1\<close>), fails while the count is at
  most \<open>fail_count\<close> and succeeds afterwards; its state is the count before the call.
\<close>

definition simulated_failure :: llm_result where
  "simulated_failure =
     \<lparr>llm_success = False, llm_error = Some ''Simulated Failure'', llm_message = None,
      llm_usage = None, llm_reasoning_content = None\<rparr>"

definition response_without_message :: llm_result where
  "response_without_message =
     \<lparr>llm_success = True, llm_error = None, llm_message = None, llm_usage = None,
      llm_reasoning_content = None\<rparr>"

definition flaky_client :: "nat \<Rightarrow> (nat, 'm) chat_completion" where
  "flaky_client fail_count =
     (\<lambda>attempts messages.
        (if Suc attempts \<le> fail_count then Returned simulated_failure
         else Returned response_without_message, Suc attempts))"

text \<open>A successful response of the real client's shape, with the given message content and
  nothing else.\<close>

definition simulated_success :: "string \<Rightarrow> llm_result" where
  "simulated_success content =
     \<lparr>llm_success = True, llm_error = None, llm_message = Some (Some content),
      llm_usage = None, llm_reasoning_content = None\<rparr>"

text \<open>What the requester has done once it returns \<open>res\<close> after \<open>n\<close> calls: the attempts before
  the last one failed, and either the last one succeeded and its result is returned, or all
  \<open>r + 1\<close> attempts failed; the error list has one labelled entry per failed attempt.\<close>

definition retry_post ::
  "('s, 'm) chat_completion \<Rightarrow> int \<Rightarrow> 'm \<Rightarrow> 's \<Rightarrow> retry_outcome \<times> 's \<Rightarrow> nat \<Rightarrow> bool" where
  "retry_post chat r messages s res n \<longleftrightarrow>
     1 \<le> n \<and> int n \<le> r + 1 \<and> snd res = state_after chat messages s n
     \<and> (\<forall>k<n - 1. \<not> attempt_ok (outcome_at chat messages s k))
     \<and> (if attempt_ok (outcome_at chat messages s (n - 1))
         then retry_success (fst res)
            \<and> Some (Returned (the (retry_result (fst res)))) = Some (outcome_at chat messages s (n - 1))
            \<and> retry_result (fst res) \<noteq> None
            \<and> retry_errors (fst res) =
                map (\<lambda>k. ''Attempt '' @ str_of_int (int k + 1) @ '': ''
                            @ failure_text (outcome_at chat messages s k)) [0..<n - 1]
         else \<not> retry_success (fst res) \<and> retry_result (fst res) = None \<and> int n = r + 1
            \<and> retry_errors (fst res) =
                map (\<lambda>k. ''Attempt '' @ str_of_int (int k + 1) @ '': ''
                            @ failure_text (outcome_at chat messages s k)) [0..<n])"

section \<open>Chunk planner\<close>

text \<open>
  \<^verbatim>\<open>BatchProcessor.process_note\<close> splits the ordered list of target elements with
  \<^verbatim>\<open>for i in range(0, len(target_elements), k): chunks.append(target_elements[i:i + k])\<close>.
  The loop variable \<open>i\<close> runs over \<open>0, k, 2k, ...\<close> while it is below the length; the
  slice \<^verbatim>\<open>xs[i:i+k]\<close> is \<open>take k (drop i xs)\<close>.
\<close>

function chunk_loop :: "nat \<Rightarrow> 'a list \<Rightarrow> nat \<Rightarrow> 'a list list" where
  "chunk_loop k xs i =
     (if 0 < k \<and> i < length xs then take k (drop i xs) # chunk_loop k xs (i + k) else [])"
  by pat_completeness auto
termination
  by (relation "measure (\<lambda>(k, xs, i). length xs - i)") auto

declare chunk_loop.simps [simp del]

text \<open>
  The guard \<^verbatim>\<open>if self.max_elements_per_request and self.max_elements_per_request > 0\<close>:
  \<^verbatim>\<open>None\<close> and \<open>0\<close> are falsy, a negative cap fails the comparison.
\<close>

definition plan_chunks :: "int option \<Rightarrow> 'a list \<Rightarrow> 'a list list" where
  "plan_chunks max_elements_per_request target_elements =
     (case max_elements_per_request of
        None \<Rightarrow> [target_elements]
      | Some m \<Rightarrow>
          if m \<noteq> 0 \<and> m > 0 then chunk_loop (nat m) target_elements 0
          else [target_elements])"
section \<open>Approximate matcher\<close>

text \<open>
  \<^verbatim>\<open>matcher.find_matches\<close> delegates the search to the third-party \<^verbatim>\<open>regex\<close> module, which is a
  parameter. \<open>regex_escape\<close> is \<^verbatim>\<open>regex.escape\<close> applied to the query as it was passed: the
  escaped text, or the exception the module raises (the caller in the pipeline passes
  whatever value the response holds, so the query is a decoded value and not always a str).
  \<open>regex_finditer pattern text\<close> is \<^verbatim>\<open>regex.finditer(pattern, text, flags=regex.IGNORECASE)\<close>:
  the spans \<^verbatim>\<open>(match.start(), match.end())\<close> of the matches in the order the iterator yields
  them, or the message of the \<^verbatim>\<open>regex.error\<close> it raises for a pattern it rejects.
\<close>

record regex_engine =
  regex_escape :: "json \<Rightarrow> py_exception + string"
  regex_finditer :: "string \<Rightarrow> string \<Rightarrow> string + (nat \<times> nat) list"

text \<open>The \<^verbatim>\<open>errors\<close> entry of \<^verbatim>\<open>fuzzy_config\<close> is documented as an int or a str.\<close>

datatype errors_setting = ErrorsInt int | ErrorsStr string

fun errors_truthy :: "errors_setting \<Rightarrow> bool" where
  "errors_truthy (ErrorsInt n) = (n \<noteq> 0)"
| "errors_truthy (ErrorsStr s) = (s \<noteq> [])"

fun str_of_errors :: "errors_setting \<Rightarrow> string" where
  "str_of_errors (ErrorsInt n) = str_of_int n"
| "str_of_errors (ErrorsStr s) = s"

type_synonym fuzzy_config = "(string \<times> errors_setting) list option"

text \<open>One entry of the returned list: \<^verbatim>\<open>{"start", "end", "match_text"}\<close>.\<close>

record match =
  m_start :: nat
  m_end :: nat
  match_text :: string

text \<open>The slice \<^verbatim>\<open>text[i:j]\<close> for indices that are not negative; \<^verbatim>\<open>match.group()\<close> is the
  slice of the text between the match's start and end.\<close>

definition slice :: "'a list \<Rightarrow> nat \<Rightarrow> nat \<Rightarrow> 'a list" where
  "slice xs i j = take (j - i) (drop i xs)"

text \<open>\<^verbatim>\<open>len(x)\<close>: defined for a str, a list and a dict, a \<^verbatim>\<open>TypeError\<close> for the other values.\<close>

definition py_len :: "json \<Rightarrow> py_exception + nat" where
  "py_len v =
     (case v of
        JStr s \<Rightarrow> Inr (length s)
      | JArr xs \<Rightarrow> Inr (length xs)
      | JObj kvs \<Rightarrow> Inr (length kvs)
      | _ \<Rightarrow> Inl (Raise TypeError ''object has no len()''))"

text \<open>
  \<^verbatim>\<open>find_matches\<close>. The steps, in the order of the source: \<^verbatim>\<open>if not query: return []\<close>; the
  \<^verbatim>\<open>errors\<close> setting, which without a configured value is 2 for a query longer than 10 and 0
  otherwise (\<^verbatim>\<open>len(query)\<close> may raise); \<^verbatim>\<open>regex.escape(query)\<close>; the pattern, with the fuzzy
  suffix when \<^verbatim>\<open>errors\<close> is truthy; the matches of \<^verbatim>\<open>regex.finditer\<close>; and, when there are
  matches, \<^verbatim>\<open>matches.sort(key=lambda m: abs(len(m['match_text']) - len(query)))\<close>.
  \<^verbatim>\<open>list.sort\<close> is stable, and so is \<^const>\<open>sort_key\<close>: entries with equal keys keep the order
  they had.
\<close>

definition find_matches ::
  "regex_engine \<Rightarrow> string \<Rightarrow> json \<Rightarrow> fuzzy_config \<Rightarrow> py_exception + match list"
where
  "find_matches re text query fuzzy_config =
     (if \<not> truthy query then Inr []
      else
        let cfg = (case fuzzy_config of None \<Rightarrow> [] | Some c \<Rightarrow> c)
        in case (case dict_get cfg ''errors'' of
                   Some e \<Rightarrow> Inr e
                 | None \<Rightarrow> (case py_len query of
                               Inl ex \<Rightarrow> Inl ex
                             | Inr n \<Rightarrow> Inr (ErrorsInt (if n > 10 then 2 else 0)))) of
             Inl ex \<Rightarrow> Inl ex
           | Inr errors \<Rightarrow>
               (case regex_escape re query of
                  Inl ex \<Rightarrow> Inl ex
                | Inr escaped_query \<Rightarrow>
                    let pattern = (if errors_truthy errors
                                   then ''('' @ escaped_query @ ''){e<='' @ str_of_errors errors
                                          @ ''}''
                                   else escaped_query)
                    in case regex_finditer re pattern text of
                         Inl msg \<Rightarrow> Inl (Raise RegexError msg)
                       | Inr spans \<Rightarrow>
                           let matches =
                                 map (\<lambda>(i, j). \<lparr>m_start = i, m_end = j,
                                                match_text = slice text i j\<rparr>) spans
                           in if matches \<noteq> [] then
                                (case py_len query of
                                   Inl ex \<Rightarrow> Inl ex
                                 | Inr n \<Rightarrow>
                                     Inr (sort_key
                                            (\<lambda>m. \<bar>int (length (match_text m)) - int n\<bar>)
                                            matches))
                              else Inr matches))"

text \<open>A stand-in engine for examples. Its escape escapes no character: a str query is
  returned unchanged, and for a list of strs or a dict, over which \<^verbatim>\<open>regex.escape\<close> iterates,
  the strs it meets are joined; every other query is rejected. Its iterator yields the given
  spans for every pattern and text.\<close>

fun joined_strs :: "json list \<Rightarrow> py_exception + string" where
  "joined_strs [] = Inr []"
| "joined_strs (JStr s # rest) =
     (case joined_strs rest of Inl ex \<Rightarrow> Inl ex | Inr t \<Rightarrow> Inr (s @ t))"
| "joined_strs (v # rest) = Inl (Raise AttributeError ''object has no attribute isspace'')"

definition scripted_regex :: "(nat \<times> nat) list \<Rightarrow> regex_engine" where
  "scripted_regex spans =
     \<lparr>regex_escape = (\<lambda>query. case query of
                               JStr s \<Rightarrow> Inr s
                             | JArr xs \<Rightarrow> joined_strs xs
                             | JObj kvs \<Rightarrow> Inr (concat (map fst kvs))
                             | _ \<Rightarrow> Inl (Raise TypeError ''object is not iterable'')),
      regex_finditer = (\<lambda>pattern text. Inr spans)\<rparr>"

section \<open>Response parsing and post-processing\<close>

text \<open>
  \<^verbatim>\<open>_parse_response\<close>. \<open>json_loads\<close> is \<^verbatim>\<open>json.loads\<close>: the decoded value, or the text of the
  \<^verbatim>\<open>JSONDecodeError\<close>. A missing \<^verbatim>\<open>"message"\<close> key is a \<^verbatim>\<open>KeyError\<close>, which the function
  catches; a \<^verbatim>\<open>content\<close> of \<^verbatim>\<open>None\<close> makes \<^verbatim>\<open>content.startswith\<close> raise \<^verbatim>\<open>AttributeError\<close>,
  which it does not catch. The result is the pair (value or \<^verbatim>\<open>None\<close>, error text or \<^verbatim>\<open>None\<close>).
\<close>

definition parse_response ::
  "(string \<Rightarrow> string + json) \<Rightarrow> llm_result \<Rightarrow> py_exception + (json option \<times> string option)"
where
  "parse_response json_loads result =
     (case llm_message result of
        None \<Rightarrow> Inr (None, Some [CHR 0x27, CHR ''m'', CHR ''e'', CHR ''s'', CHR ''s'', CHR ''a'',
                                 CHR ''g'', CHR ''e'', CHR 0x27])
      | Some None \<Rightarrow>
          Inl (Raise AttributeError [CHR 0x27, CHR ''N'', CHR ''o'', CHR ''n'', CHR ''e'', CHR ''T'',
                 CHR ''y'', CHR ''p'', CHR ''e'', CHR 0x27, CHR '' '', CHR ''o'', CHR ''b'', CHR ''j'',
                 CHR ''e'', CHR ''c'', CHR ''t'', CHR '' '', CHR ''h'', CHR ''a'', CHR ''s'', CHR '' '',
                 CHR ''n'', CHR ''o'', CHR '' '', CHR ''a'', CHR ''t'', CHR ''t'', CHR ''r'', CHR ''i'',
                 CHR ''b'', CHR ''u'', CHR ''t'', CHR ''e''])
      | Some (Some content) \<Rightarrow>
          let content = (if is_prefix ''```json'' content then drop 7 content else content);
              content = (if is_prefix (rev ''```'') (rev content)
                         then take (length content - 3) content else content)
          in case json_loads content of
               Inl msg \<Rightarrow> Inr (None, Some msg)
             | Inr v \<Rightarrow> Inr (Some v, None))"

text \<open>The field schema: \<^verbatim>\<open>ExtractionSchema.elements\<close> is a dictionary from the element name to
  its definition, of which the pipeline reads the two flags.\<close>

record extraction_element =
  el_grounding :: bool
  el_reasoning :: bool

type_synonym extraction_schema = "(string \<times> extraction_element) list"

definition get_element :: "extraction_schema \<Rightarrow> string \<Rightarrow> extraction_element option" where
  "get_element schema name = dict_get schema name"

text \<open>What \<^verbatim>\<open>_post_process_extraction\<close> builds for one element (\<^verbatim>\<open>item_output\<close>): the keys
  \<^verbatim>\<open>"reasoning"\<close> and \<^verbatim>\<open>"grounding"\<close> are present only when they were set.\<close>

record grounding_span =
  span_text :: json
  anchors :: "(nat \<times> nat) list"

record field_result =
  answer :: json
  reasoning :: "json option"
  grounding :: "grounding_span list option"

text \<open>\<^verbatim>\<open>name in container\<close> and \<^verbatim>\<open>container[name]\<close> for a string \<open>name\<close> and a decoded value:
  a dict tests and reads its keys; a list compares its elements and a str looks for a
  substring, and both reject a string index; the other values support neither.\<close>

definition py_contains :: "json \<Rightarrow> string \<Rightarrow> py_exception + bool" where
  "py_contains container name =
     (case container of
        JObj kvs \<Rightarrow> Inr (dict_has kvs name)
      | JArr xs \<Rightarrow> Inr (JStr name \<in> set xs)
      | JStr s \<Rightarrow> Inr (str_contains name s)
      | _ \<Rightarrow> Inl (Raise TypeError ''argument is not iterable''))"

definition py_getitem :: "json \<Rightarrow> string \<Rightarrow> py_exception + json" where
  "py_getitem container name =
     (case container of
        JObj kvs \<Rightarrow> (case dict_get kvs name of
                      Some v \<Rightarrow> Inr v
                    | None \<Rightarrow> Inl (Raise KeyError name))
      | JArr xs \<Rightarrow> Inl (Raise TypeError ''list indices must be integers or slices, not str'')
      | JStr s \<Rightarrow> Inl (Raise TypeError ''string indices must be integers, not str'')
      | _ \<Rightarrow> Inl (Raise TypeError ''object is not subscriptable''))"

text \<open>\<^verbatim>\<open>for x in v\<close>: the elements of a list, the keys of a dict, the characters of a str.\<close>

definition py_iter :: "json \<Rightarrow> py_exception + json list" where
  "py_iter v =
     (case v of
        JArr xs \<Rightarrow> Inr xs
      | JObj kvs \<Rightarrow> Inr (map (\<lambda>(k, _). JStr k) kvs)
      | JStr s \<Rightarrow> Inr (map (\<lambda>c. JStr [c]) s)
      | _ \<Rightarrow> Inl (Raise TypeError ''object is not iterable''))"

text \<open>The loop \<^verbatim>\<open>for text_snippet in grounding_text\<close>, with \<^verbatim>\<open>grounding_result\<close> as accumulator:
  each snippet, whatever value it is, is the query of
  \<^verbatim>\<open>find_matches(note_text, text_snippet, self.fuzzy_config)\<close>.\<close>


fun ground_snippets ::
  "regex_engine \<Rightarrow> fuzzy_config \<Rightarrow> string \<Rightarrow> json list \<Rightarrow> grounding_span list
     \<Rightarrow> py_exception + grounding_span list"
where
  "ground_snippets re fuzzy_config note_text [] grounding_result = Inr grounding_result"
| "ground_snippets re fuzzy_config note_text (text_snippet # rest) grounding_result =
     (case find_matches re note_text text_snippet fuzzy_config of
        Inl e \<Rightarrow> Inl e
      | Inr matches \<Rightarrow>
          let anchors = (if matches \<noteq> [] then map (\<lambda>m. (m_start m, m_end m)) matches else [])
          in ground_snippets re fuzzy_config note_text rest
               (grounding_result @ [\<lparr>span_text = text_snippet, anchors = anchors\<rparr>]))"

text \<open>\<^verbatim>\<open>d.get(k)\<close> on a decoded dict: a missing key reads as \<^verbatim>\<open>None\<close>.\<close>

definition json_get :: "(string \<times> json) list \<Rightarrow> string \<Rightarrow> json" where
  "json_get kvs k = (case dict_get kvs k of Some v \<Rightarrow> v | None \<Rightarrow> JNull)"

text \<open>The branch on the shape of the raw value: an object with an \<^verbatim>\<open>"answer"\<close> or a
  \<^verbatim>\<open>"value"\<close> key gives \<^verbatim>\<open>raw_val.get("answer", raw_val.get("value"))\<close>,
  \<^verbatim>\<open>raw_val.get("reasoning")\<close> and \<^verbatim>\<open>raw_val.get("grounding")\<close>; anything else is the answer
  itself. The result is the triple (\<^verbatim>\<open>answer\<close>, \<^verbatim>\<open>reasoning\<close>, \<^verbatim>\<open>grounding_text\<close>).\<close>

definition read_raw_val :: "json \<Rightarrow> json \<times> json \<times> json" where
  "read_raw_val raw_val =
     (case raw_val of
        JObj kvs \<Rightarrow>
          if dict_has kvs ''answer'' \<or> dict_has kvs ''value''
          then ((case dict_get kvs ''answer'' of
                   Some a \<Rightarrow> a
                 | None \<Rightarrow> json_get kvs ''value''),
                json_get kvs ''reasoning'', json_get kvs ''grounding'')
          else (raw_val, JNull, JNull)
      | _ \<Rightarrow> (raw_val, JNull, JNull))"

text \<open>The body of the loop of \<^verbatim>\<open>_post_process_extraction\<close> from \<^verbatim>\<open>item_output = {}\<close> on, for
  one element definition and the raw value found for it.\<close>

definition build_item ::
  "regex_engine \<Rightarrow> fuzzy_config \<Rightarrow> string \<Rightarrow> extraction_element \<Rightarrow> json
     \<Rightarrow> py_exception + field_result"
where
  "build_item re fuzzy_config note_text el_def raw_val =
     (let (answer, reasoning, grounding_text) = read_raw_val raw_val;
          item_output = \<lparr>answer = answer,
                         reasoning = (if el_reasoning el_def \<and> truthy reasoning
                                      then Some reasoning else None),
                         grounding = None\<rparr>
      in if el_grounding el_def \<and> truthy grounding_text then
           (case (case grounding_text of
                    JStr s \<Rightarrow> Inr [grounding_text]
                  | _ \<Rightarrow> py_iter grounding_text) of
              Inl e \<Rightarrow> Inl e
            | Inr snippets \<Rightarrow>
                (case ground_snippets re fuzzy_config note_text snippets [] of
                   Inl e \<Rightarrow> Inl e
                 | Inr grounding_result \<Rightarrow>
                     Inr (item_output\<lparr>grounding := Some grounding_result\<rparr>)))
         else Inr item_output)"

text \<open>The loop \<^verbatim>\<open>for el_name in target_elements\<close> with \<^verbatim>\<open>processed_extraction\<close> as accumulator.\<close>

fun post_process_loop ::
  "regex_engine \<Rightarrow> fuzzy_config \<Rightarrow> extraction_schema \<Rightarrow> json \<Rightarrow> string \<Rightarrow> string list
     \<Rightarrow> (string \<times> field_result) list \<Rightarrow> py_exception + (string \<times> field_result) list"
where
  "post_process_loop re fuzzy_config schema raw_extraction note_text [] processed_extraction =
     Inr processed_extraction"
| "post_process_loop re fuzzy_config schema raw_extraction note_text (el_name # rest)
     processed_extraction =
     (case get_element schema el_name of
        None \<Rightarrow>
          post_process_loop re fuzzy_config schema raw_extraction note_text rest
            processed_extraction
      | Some el_def \<Rightarrow>
          (case py_contains raw_extraction el_name of
             Inl e \<Rightarrow> Inl e
           | Inr False \<Rightarrow>
               post_process_loop re fuzzy_config schema raw_extraction note_text rest
                 processed_extraction
           | Inr True \<Rightarrow>
               (case py_getitem raw_extraction el_name of
                  Inl e \<Rightarrow> Inl e
                | Inr raw_val \<Rightarrow>
                    (case build_item re fuzzy_config note_text el_def raw_val of
                       Inl e \<Rightarrow> Inl e
                     | Inr item_output \<Rightarrow>
                         post_process_loop re fuzzy_config schema raw_extraction note_text rest
                           (dict_set processed_extraction el_name item_output)))))"

text \<open>\<^verbatim>\<open>element_names if element_names else list(self.schema.elements.keys())\<close>.\<close>

definition resolve_targets :: "extraction_schema \<Rightarrow> string list option \<Rightarrow> string list" where
  "resolve_targets schema element_names =
     (case element_names of
        None \<Rightarrow> map fst schema
      | Some names \<Rightarrow> if names \<noteq> [] then names else map fst schema)"

definition post_process_extraction ::
  "regex_engine \<Rightarrow> fuzzy_config \<Rightarrow> extraction_schema \<Rightarrow> json \<Rightarrow> string \<Rightarrow> string list option
     \<Rightarrow> py_exception + (string \<times> field_result) list"
where
  "post_process_extraction re fuzzy_config schema raw_extraction note_text element_names =
     post_process_loop re fuzzy_config schema raw_extraction note_text
       (resolve_targets schema element_names) []"

section \<open>Document extractor\<close>

text \<open>
  The collaborators of \<^verbatim>\<open>BatchProcessor\<close> that are not part of the pipeline module:
  the generation client, \<^verbatim>\<open>PromptBuilder.construct_messages\<close>, \<^verbatim>\<open>json.loads\<close>, \<^verbatim>\<open>repr\<close> of a
  string (used when an f-string prints a chunk) and the \<^verbatim>\<open>regex\<close> module.
\<close>

record ('s, 'm) collaborators =
  chat_completion :: "('s, 'm) chat_completion"
  construct_messages :: "string \<Rightarrow> string list \<Rightarrow> 'm"
  json_loads :: "string \<Rightarrow> string + json"
  repr_str :: "string \<Rightarrow> string"
  regex :: regex_engine

text \<open>The attributes of \<^verbatim>\<open>BatchProcessor\<close> that \<^verbatim>\<open>process_note\<close> and \<^verbatim>\<open>process_batch\<close> read.
  \<open>max_parallel_requests\<close> is the initial value of the semaphore.\<close>

record processor =
  schema :: extraction_schema
  max_parallel_requests :: nat
  fuzzy_config :: fuzzy_config
  max_retries :: int
  max_elements_per_request :: "int option"
  include_chunk_details :: bool
  chunk_reasoning :: bool
  chunk_metrics :: bool
  include_raw_response :: bool
  completed_ids :: "json set"

text \<open>\<^verbatim>\<open>f"{chunk}"\<close> for a list of strings: \<^verbatim>\<open>['a', 'b']\<close>.\<close>

fun join :: "string \<Rightarrow> string list \<Rightarrow> string" where
  "join sep [] = []"
| "join sep [x] = x"
| "join sep (x # y # ys) = x @ sep @ join sep (y # ys)"

definition repr_list :: "(string \<Rightarrow> string) \<Rightarrow> string list \<Rightarrow> string" where
  "repr_list repr chunk = ''['' @ join '', '' (map repr chunk) @ '']''"

text \<open>The entry of \<^verbatim>\<open>chunks_info\<close> for one chunk (\<^verbatim>\<open>chunk_data\<close>, without the float latency),
  the running token totals (\<^verbatim>\<open>total_usage\<close>), and the returned dictionary (\<^verbatim>\<open>output\<close>, without
  the float latency). An optional key is \<open>None\<close> when the dictionary does not have it.\<close>

record chunk_data =
  chunk_index :: nat
  chunk_elements :: "string list"
  chunk_success :: bool
  chunk_usage :: "(string \<times> int) list option"
  chunk_raw_response :: "string option"
  chunk_reasoning_text :: "string option"
  chunk_error :: "string option"

record usage_totals =
  prompt_tokens :: int
  completion_tokens :: int
  total_tokens :: int

record document_result =
  result_id :: string
  extraction :: "(string \<times> field_result) list"
  result_errors :: "string list"
  success :: bool
  chunks :: "chunk_data list option"
  usage :: "usage_totals option"
  result_error :: "string option"
  raw_response :: "string option"

text \<open>The local variables of \<^verbatim>\<open>process_note\<close> that the loop over the chunks updates.\<close>

record note_state =
  merged_extraction :: "(string \<times> field_result) list"
  all_errors :: "string list"
  overall_success :: bool
  raw_responses :: "string list"
  chunks_info :: "chunk_data list"
  total_usage :: usage_totals

definition usage_get :: "(string \<times> int) list \<Rightarrow> string \<Rightarrow> int" where
  "usage_get u k = (case dict_get u k of Some n \<Rightarrow> n | None \<Rightarrow> 0)"

text \<open>
  One iteration of \<^verbatim>\<open>for i, chunk in enumerate(chunks)\<close>. The printing of the prompt has no
  effect on the values. An exception leaves the function at once, so the iteration gives
  either the exception or the updated variables, and in both cases the client's new state.
  When the request succeeded the steps are, in the order of the source: the usage counts,
  \<^verbatim>\<open>llm_result["message"].content\<close> (a \<^verbatim>\<open>KeyError\<close> without the key), \<^verbatim>\<open>_parse_response\<close> (which
  raises when the content is \<^verbatim>\<open>None\<close>, so the content is a string afterwards), the
  reasoning text, and the test \<^verbatim>\<open>if raw_extraction:\<close> on the parsed value.
\<close>

definition process_chunk ::
  "('s, 'm) collaborators \<Rightarrow> processor \<Rightarrow> string \<Rightarrow> nat \<Rightarrow> string list \<Rightarrow> note_state \<Rightarrow> 's
     \<Rightarrow> (py_exception + note_state) \<times> 's"
where
  "process_chunk co p note_text i chunk st s =
     (let messages = construct_messages co note_text chunk;
          (retry, s') = call_llm_with_retry (chat_completion co) (max_retries p) messages s;
          st = st\<lparr>all_errors := all_errors st @ retry_errors retry\<rparr>;
          chunk_data = \<lparr>chunk_index = i, chunk_elements = chunk,
                        chunk_success = retry_success retry, chunk_usage = None,
                        chunk_raw_response = None, chunk_reasoning_text = None,
                        chunk_error = None\<rparr>
      in if retry_success retry then
           (case retry_result retry of
              None \<Rightarrow> (Inl (Raise KeyError ''result''), s')
            | Some llm_result \<Rightarrow>
                let u = (case llm_usage llm_result of
                           None \<Rightarrow> None
                         | Some u \<Rightarrow> if u \<noteq> [] then Some u else None);
                    chunk_data = (case u of
                                    None \<Rightarrow> chunk_data
                                  | Some u \<Rightarrow> if chunk_metrics p
                                              then chunk_data\<lparr>chunk_usage := Some u\<rparr>
                                              else chunk_data);
                    st = (case u of
                            None \<Rightarrow> st
                          | Some u \<Rightarrow>
                              st\<lparr>total_usage :=
                                   \<lparr>prompt_tokens = prompt_tokens (total_usage st)
                                                      + usage_get u ''prompt_tokens'',
                                    completion_tokens = completion_tokens (total_usage st)
                                                      + usage_get u ''completion_tokens'',
                                    total_tokens = total_tokens (total_usage st)
                                                      + usage_get u ''total_tokens''\<rparr>\<rparr>)
                in case llm_message llm_result of
                     None \<Rightarrow> (Inl (Raise KeyError ''message''), s')
                   | Some raw_content \<Rightarrow>
                       (case parse_response (json_loads co) llm_result of
                          Inl e \<Rightarrow> (Inl e, s')
                        | Inr (raw_extraction, parse_error) \<Rightarrow>
                            let st = st\<lparr>raw_responses := raw_responses st
                                          @ (case raw_content of Some c \<Rightarrow> [c] | None \<Rightarrow> [])\<rparr>;
                                chunk_data = (if include_raw_response p
                                              then chunk_data\<lparr>chunk_raw_response := raw_content\<rparr>
                                              else chunk_data);
                                chunk_data =
                                  (if chunk_reasoning p then
                                     (case llm_reasoning_content llm_result of
                                        None \<Rightarrow> chunk_data
                                      | Some reasoning_content \<Rightarrow>
                                          if reasoning_content \<noteq> []
                                          then chunk_data\<lparr>chunk_reasoning_text :=
                                                            Some reasoning_content\<rparr>
                                          else chunk_data)
                                   else chunk_data)
                            in if (case raw_extraction of None \<Rightarrow> False | Some v \<Rightarrow> truthy v)
                               then
                                 (case post_process_extraction (regex co) (fuzzy_config p)
                                         (schema p)
                                         (case raw_extraction of Some v \<Rightarrow> v | None \<Rightarrow> JNull)
                                         note_text (Some chunk) of
                                    Inl e \<Rightarrow> (Inl e, s')
                                  | Inr processed \<Rightarrow>
                                      (Inr (st\<lparr>merged_extraction :=
                                                  dict_update (merged_extraction st) processed,
                                                chunks_info := chunks_info st @ [chunk_data]\<rparr>),
                                       s'))
                               else
                                 let error_msg = ''Failed to parse JSON response for chunk ''
                                       @ repr_list (repr_str co) chunk @ '': ''
                                       @ str_of_opt parse_error
                                 in (Inr (st\<lparr>overall_success := False,
                                             all_errors := all_errors st @ [error_msg],
                                             chunks_info := chunks_info st
                                               @ [chunk_data\<lparr>chunk_error := Some error_msg\<rparr>]\<rparr>),
                                     s')))
         else
           let error_msg = ''Max retries exceeded for chunk '' @ repr_list (repr_str co) chunk
           in (Inr (st\<lparr>overall_success := False,
                       all_errors := all_errors st @ [error_msg],
                       chunks_info := chunks_info st
                         @ [chunk_data\<lparr>chunk_error := Some error_msg\<rparr>]\<rparr>),
               s'))"

text \<open>The loop over \<^verbatim>\<open>enumerate(chunks)\<close>: the chunks come with their indices.\<close>

fun process_chunks ::
  "('s, 'm) collaborators \<Rightarrow> processor \<Rightarrow> string \<Rightarrow> (nat \<times> string list) list \<Rightarrow> note_state
     \<Rightarrow> 's \<Rightarrow> (py_exception + note_state) \<times> 's"
where
  "process_chunks co p note_text [] st s = (Inr st, s)"
| "process_chunks co p note_text ((i, chunk) # rest) st s =
     (case process_chunk co p note_text i chunk st s of
        (Inl e, s') \<Rightarrow> (Inl e, s')
      | (Inr st', s') \<Rightarrow> process_chunks co p note_text rest st' s')"

text \<open>
  \<^verbatim>\<open>process_note\<close>. Holding the semaphore changes no value. The append of the result to the
  output file is not modelled: it returns nothing to the caller.
\<close>

definition process_note ::
  "('s, 'm) collaborators \<Rightarrow> processor \<Rightarrow> string \<Rightarrow> string \<Rightarrow> string list option \<Rightarrow> 's
     \<Rightarrow> (py_exception + document_result) \<times> 's"
where
  "process_note co p note_id note_text element_names s =
     (let target_elements = resolve_targets (schema p) element_names;
          chunks = plan_chunks (max_elements_per_request p) target_elements;
          st0 = \<lparr>merged_extraction = [], all_errors = [], overall_success = True,
                 raw_responses = [], chunks_info = [],
                 total_usage = \<lparr>prompt_tokens = 0, completion_tokens = 0, total_tokens = 0\<rparr>\<rparr>
      in case process_chunks co p note_text (enumerate 0 chunks) st0 s of
           (Inl e, s') \<Rightarrow> (Inl e, s')
         | (Inr st, s') \<Rightarrow>
             (Inr \<lparr>result_id = note_id,
                   extraction = merged_extraction st,
                   result_errors = all_errors st,
                   success = overall_success st,
                   chunks = (if include_chunk_details p then Some (chunks_info st) else None),
                   usage = (if chunk_metrics p then Some (total_usage st) else None),
                   result_error = (if \<not> overall_success st
                                   then Some ''One or more chunks failed'' else None),
                   raw_response = (if include_raw_response p \<and> raw_responses st \<noteq> []
                                   then Some (join [CHR 0x0A, CHR ''-'', CHR ''-'', CHR ''-'', CHR 0x0A]
                                                (raw_responses st))
                                   else None)\<rparr>,
              s'))"

subsection \<open>Stand-ins for the collaborators in examples\<close>

text \<open>A client that plays back a list of outcomes, one per call; a decoder given by a table
  of the texts it accepts; \<^verbatim>\<open>repr\<close> for strings without quotes or escapes; and a message
  builder that just pairs its arguments.\<close>

definition scripted_client :: "(call_outcome list, 'm) chat_completion" where
  "scripted_client = (\<lambda>script messages.
     case script of [] \<Rightarrow> (Raised ''no response'', []) | out # rest \<Rightarrow> (out, rest))"

definition table_loads :: "(string \<times> json) list \<Rightarrow> string \<Rightarrow> string + json" where
  "table_loads table content =
     (case dict_get table content of Some v \<Rightarrow> Inr v | None \<Rightarrow> Inl ''Expecting value'')"

definition quote_repr :: "string \<Rightarrow> string" where
  "quote_repr s = [CHR 0x27] @ s @ [CHR 0x27]"

definition example_collaborators ::
  "(string \<times> json) list \<Rightarrow> (call_outcome list, string \<times> string list) collaborators" where
  "example_collaborators table =
     \<lparr>chat_completion = scripted_client,
      construct_messages = (\<lambda>note_text chunk. (note_text, chunk)),
      json_loads = table_loads table,
      repr_str = quote_repr,
      regex = scripted_regex []\<rparr>"

definition example_processor :: "extraction_schema \<Rightarrow> int \<Rightarrow> int option \<Rightarrow> processor" where
  "example_processor sch retries cap =
     \<lparr>schema = sch, max_parallel_requests = 5, fuzzy_config = None, max_retries = retries,
      max_elements_per_request = cap, include_chunk_details = False, chunk_reasoning = True,
      chunk_metrics = False, include_raw_response = False, completed_ids = {}\<rparr>"

definition plain_element :: extraction_element where
  "plain_element = \<lparr>el_grounding = False, el_reasoning = False\<rparr>"

section \<open>Resume ledger\<close>

text \<open>
  The output file as \<^verbatim>\<open>jsonlines.open(self.output_file)\<close> sees it: \<open>None\<close> when the file does not
  exist (\<^verbatim>\<open>FileNotFoundError\<close>), otherwise its lines, each of which the reader either decodes
  to a value (\<open>Inr\<close>) or rejects with \<^verbatim>\<open>InvalidLineError\<close> (\<open>Inl\<close>, with the message): a line that
  is not valid JSON, an empty line, a line holding \<^verbatim>\<open>null\<close>.
\<close>

type_synonym ledger_file = "(string + json) list option"

text \<open>A list and a dict cannot be members of a set (\<^verbatim>\<open>TypeError: unhashable type\<close>).\<close>

fun hashable :: "json \<Rightarrow> bool" where
  "hashable (JArr xs) = False"
| "hashable (JObj kvs) = False"
| "hashable v = True"

text \<open>
  A Python set holds one member for all values that are equal under \<^verbatim>\<open>==\<close>, and numbers of
  different types are equal when they have the same value: \<^verbatim>\<open>1 == 1.0 == True\<close> and
  \<^verbatim>\<open>0 == 0.0 == False\<close>. The set \<^verbatim>\<open>self.completed_ids\<close> is only ever tested for membership, so
  the model keeps one representative of each class: a bool and a float with an integral
  value are kept as the int they equal. A str, \<^verbatim>\<open>None\<close> and the other numbers stand for
  themselves.
\<close>

fun set_member :: "json \<Rightarrow> json" where
  "set_member (JBool b) = JInt (if b then 1 else 0)"
| "set_member (JFloat x) = (if of_int \<lfloor>x\<rfloor> = x then JInt \<lfloor>x\<rfloor> else JFloat x)"
| "set_member v = v"

text \<open>The loop \<^verbatim>\<open>for obj in reader\<close> of \<^verbatim>\<open>_load_completed_ids\<close>, with \<^verbatim>\<open>self.completed_ids\<close> as
  accumulator.\<close>

fun load_ids_loop :: "(string + json) list \<Rightarrow> json set \<Rightarrow> py_exception + json set" where
  "load_ids_loop [] ids = Inr ids"
| "load_ids_loop (line # rest) ids =
     (case line of
        Inl msg \<Rightarrow> Inl (Raise InvalidLineError msg)
      | Inr obj \<Rightarrow>
          (case py_contains obj ''id'' of
             Inl e \<Rightarrow> Inl e
           | Inr False \<Rightarrow> load_ids_loop rest ids
           | Inr True \<Rightarrow>
               (case py_getitem obj ''id'' of
                  Inl e \<Rightarrow> Inl e
                | Inr v \<Rightarrow>
                    if hashable v then load_ids_loop rest (insert (set_member v) ids)
                    else Inl (Raise TypeError ''unhashable type''))))"

text \<open>\<^verbatim>\<open>_load_completed_ids\<close>, starting from the empty set that the constructor assigns:
  only \<^verbatim>\<open>FileNotFoundError\<close> is caught.\<close>

definition load_completed_ids :: "ledger_file \<Rightarrow> py_exception + json set" where
  "load_completed_ids file =
     (case file of
        None \<Rightarrow> Inr {}
      | Some lines \<Rightarrow> load_ids_loop lines {})"

text \<open>A line that holds a record: an object whose id, when it has one, is hashable. The ids of
  the records of a ledger, as members of a set.\<close>

definition record_line :: "string + json \<Rightarrow> bool" where
  "record_line line =
     (case line of
        Inr (JObj kvs) \<Rightarrow> (case dict_get kvs ''id'' of Some v \<Rightarrow> hashable v | None \<Rightarrow> True)
      | _ \<Rightarrow> False)"

definition ledger_ids :: "(string + json) list \<Rightarrow> json set" where
  "ledger_ids lines =
     {set_member v | v kvs. Inr (JObj kvs) \<in> set lines \<and> dict_get kvs ''id'' = Some v}"

section \<open>Batch dispatcher\<close>

text \<open>
  \<^verbatim>\<open>process_batch\<close> is an asynchronous generator: between its suspension points other tasks
  run, and which tasks have completed when \<^verbatim>\<open>asyncio.wait\<close> returns is not decided by the
  dispatcher. It is modelled as a step relation on the dispatcher's variables. The control
  point is one of: about to pull the next note from \<^verbatim>\<open>notes\<close> (\<open>Pulling\<close>); suspended in
  \<^verbatim>\<open>await asyncio.wait(pending_tasks, return_when=FIRST_COMPLETED)\<close> (\<open>Waiting\<close>), in the loop
  over the input or in the final \<^verbatim>\<open>while pending_tasks\<close> loop; inside \<^verbatim>\<open>for t in done: yield await t\<close>
  with the tasks of \<^verbatim>\<open>done\<close> still to be yielded (\<open>Yielding\<close>); returned (\<open>Finished\<close>); or left by an
  exception (\<open>Aborted\<close>).
\<close>

record task =
  task_index :: nat
  task_note_id :: string
  task_note_text :: string

datatype phase = Feeding | Draining

datatype control =
    Pulling
  | Waiting phase
  | Yielding phase "task list"
  | Finished
  | Aborted py_exception

text \<open>
  The variables: the notes not yet pulled, \<^verbatim>\<open>pending_tasks\<close>, the results yielded so far, and
  the state of the generation client. \<open>submitted\<close> is a history variable: every task created
  so far. A task's extraction is run, against the client's current state, when the
  dispatcher awaits the completed task; how the client calls of extractions that run at the
  same time interleave is not modelled.
\<close>

record 's dispatcher =
  remaining :: "(string \<times> string) list"
  pending_tasks :: "task list"
  submitted :: "task list"
  yielded :: "document_result list"
  client_state :: 's
  control :: control

definition initial_dispatcher :: "(string \<times> string) list \<Rightarrow> 's \<Rightarrow> 's dispatcher" where
  "initial_dispatcher docs s =
     \<lparr>remaining = docs, pending_tasks = [], submitted = [], yielded = [], client_state = s,
      control = Pulling\<rparr>"

text \<open>Where the \<^verbatim>\<open>while pending_tasks\<close> loop goes: it returns when no task is pending.\<close>

definition drain_control :: "task list \<Rightarrow> control" where
  "drain_control pending = (if pending = [] then Finished else Waiting Draining)"

text \<open>
  The steps. \<open>skip\<close>: the note's id is in \<^verbatim>\<open>self.completed_ids\<close>, \<^verbatim>\<open>continue\<close>. \<open>submit\<close>: a task is
  created and added, and the test \<^verbatim>\<open>len(pending_tasks) >= self.semaphore._value * 2\<close> reads
  the semaphore's current value, which is at most its initial value. \<open>exhausted\<close>: the input
  has ended. \<open>completed\<close>: \<^verbatim>\<open>asyncio.wait\<close> returns a set \<^verbatim>\<open>done\<close> that is not empty, and
  \<^verbatim>\<open>pending_tasks\<close> becomes the rest. \<open>yield\<close> and \<open>raise\<close>: \<^verbatim>\<open>yield await t\<close> for the next task of \<^verbatim>\<open>done\<close>
  gives its result or re-raises its exception. \<open>resume\<close>: \<^verbatim>\<open>done\<close> has been yielded.
\<close>

inductive dispatch_step ::
  "('s, 'm) collaborators \<Rightarrow> processor \<Rightarrow> string list option \<Rightarrow> 's dispatcher \<Rightarrow> 's dispatcher
     \<Rightarrow> bool"
  for co :: "('s, 'm) collaborators" and p :: processor and element_names :: "string list option"
where
  skip:
    "\<lbrakk>control st = Pulling; remaining st = (note_id, note_text) # rest;
      JStr note_id \<in> completed_ids p\<rbrakk>
     \<Longrightarrow> dispatch_step co p element_names st (st\<lparr>remaining := rest\<rparr>)"
| submit:
    "\<lbrakk>control st = Pulling; remaining st = (note_id, note_text) # rest;
      JStr note_id \<notin> completed_ids p;
      semaphore_value \<le> max_parallel_requests p;
      t = \<lparr>task_index = length (submitted st), task_note_id = note_id,
           task_note_text = note_text\<rparr>\<rbrakk>
     \<Longrightarrow> dispatch_step co p element_names st
          (st\<lparr>remaining := rest,
              pending_tasks := pending_tasks st @ [t],
              submitted := submitted st @ [t],
              control := (if length (pending_tasks st @ [t]) \<ge> semaphore_value * 2
                          then Waiting Feeding else Pulling)\<rparr>)"
| exhausted:
    "\<lbrakk>control st = Pulling; remaining st = []\<rbrakk>
     \<Longrightarrow> dispatch_step co p element_names st
          (st\<lparr>control := drain_control (pending_tasks st)\<rparr>)"
| completed:
    "\<lbrakk>control st = Waiting ph; finished \<noteq> []; distinct finished;
      set finished \<subseteq> set (pending_tasks st)\<rbrakk>
     \<Longrightarrow> dispatch_step co p element_names st
          (st\<lparr>pending_tasks := filter (\<lambda>t. t \<notin> set finished) (pending_tasks st),
              control := Yielding ph finished\<rparr>)"
| yield:
    "\<lbrakk>control st = Yielding ph (t # ts);
      process_note co p (task_note_id t) (task_note_text t) element_names (client_state st)
        = (Inr r, s')\<rbrakk>
     \<Longrightarrow> dispatch_step co p element_names st
          (st\<lparr>yielded := yielded st @ [r], client_state := s', control := Yielding ph ts\<rparr>)"
| raise:
    "\<lbrakk>control st = Yielding ph (t # ts);
      process_note co p (task_note_id t) (task_note_text t) element_names (client_state st)
        = (Inl e, s')\<rbrakk>
     \<Longrightarrow> dispatch_step co p element_names st
          (st\<lparr>client_state := s', control := Aborted e\<rparr>)"
| resume:
    "control st = Yielding ph []
     \<Longrightarrow> dispatch_step co p element_names st
          (st\<lparr>control := (case ph of Feeding \<Rightarrow> Pulling
                                     | Draining \<Rightarrow> drain_control (pending_tasks st))\<rparr>)"

text \<open>The states that a run of the dispatcher over \<open>docs\<close> can be in.\<close>

definition dispatch_reaches ::
  "('s, 'm) collaborators \<Rightarrow> processor \<Rightarrow> string list option \<Rightarrow> (string \<times> string) list \<Rightarrow> 's
     \<Rightarrow> 's dispatcher \<Rightarrow> bool"
where
  "dispatch_reaches co p element_names docs s st =
     rtranclp (dispatch_step co p element_names) (initial_dispatcher docs s) st"

text \<open>The dispatcher never holds more than \<open>2c\<close> tasks, and holds fewer everywhere but at the
  wait inside the loop over the input.\<close>

definition slack_invariant :: "nat \<Rightarrow> 's dispatcher \<Rightarrow> bool" where
  "slack_invariant c st \<longleftrightarrow>
     length (pending_tasks st) \<le> 2 * c
     \<and> (control st \<noteq> Waiting Feeding \<longrightarrow> length (pending_tasks st) < 2 * c)"

text \<open>What has happened since the dispatcher \<open>st\<close> began to wait, seen from a later state
  \<open>st'\<close>: either a result has been yielded, or no note has been pulled and the dispatcher
  is still waiting, is about to yield the tasks that completed, or was left by an
  exception.\<close>

definition wait_invariant :: "phase \<Rightarrow> 's dispatcher \<Rightarrow> 's dispatcher \<Rightarrow> bool" where
  "wait_invariant ph st st' \<longleftrightarrow>
     length (yielded st) < length (yielded st')
     \<or> (remaining st' = remaining st \<and> yielded st' = yielded st
        \<and> (case control st' of
             Waiting ph' \<Rightarrow> ph' = ph
           | Yielding ph' ts \<Rightarrow> ph' = ph \<and> ts \<noteq> []
           | Aborted e \<Rightarrow> True
           | _ \<Rightarrow> False))"

text \<open>Every task was submitted for a note whose id is not in the ledger's id set, and every
  result yielded is the result of a submitted task.\<close>

definition ledger_invariant :: "processor \<Rightarrow> 's dispatcher \<Rightarrow> bool" where
  "ledger_invariant p st \<longleftrightarrow>
     (\<forall>t\<in>set (submitted st). JStr (task_note_id t) \<notin> completed_ids p)
     \<and> set (pending_tasks st) \<subseteq> set (submitted st)
     \<and> (case control st of Yielding ph ts \<Rightarrow> set ts \<subseteq> set (submitted st) | _ \<Rightarrow> True)
     \<and> (\<forall>r\<in>set (yielded st). \<exists>t\<in>set (submitted st). result_id r = task_note_id t)"

text \<open>Over an input whose ids are all in the ledger's id set nothing is ever submitted.\<close>

definition idle_invariant :: "processor \<Rightarrow> 's \<Rightarrow> 's dispatcher \<Rightarrow> bool" where
  "idle_invariant p s st \<longleftrightarrow>
     (\<forall>d\<in>set (remaining st). JStr (fst d) \<in> completed_ids p)
     \<and> pending_tasks st = [] \<and> submitted st = [] \<and> yielded st = [] \<and> client_state st = s
     \<and> (control st = Pulling \<or> control st = Finished)"

text \<open>A processor with a given id set and concurrency cap, for examples.\<close>

definition resumed_processor :: "json set \<Rightarrow> nat \<Rightarrow> processor" where
  "resumed_processor ids cap =
     (example_processor [(''dx'', plain_element)] 3 None)
       \<lparr>max_parallel_requests := cap, completed_ids := ids\<rparr>"

section \<open>Sync bridge\<close>

text \<open>
  \<^verbatim>\<open>process_batch_sync\<close> runs \<^verbatim>\<open>process_batch\<close> in a thread and hands its output over through a
  \<^verbatim>\<open>queue.Queue\<close>. The entries of the queue are \<^verbatim>\<open>("item", result)\<close>, \<^verbatim>\<open>("error", e)\<close> and
  \<^verbatim>\<open>("done", None)\<close>.
\<close>

datatype message = Item document_result | Error py_exception | Done

text \<open>
  What \<^verbatim>\<open>async_wrapper\<close> puts on the queue for a run of the dispatcher that has ended in the
  state \<open>st\<close>: an item for every result yielded, then the error when an exception left
  \<^verbatim>\<open>process_batch\<close> (\<^verbatim>\<open>except Exception as e\<close>), and in any case the final \<^verbatim>\<open>done\<close> entry
  (\<^verbatim>\<open>finally\<close>). Cancellation, which the stop event of an interrupted consumer triggers, is
  not modelled.
\<close>

definition worker_messages :: "'s dispatcher \<Rightarrow> message list" where
  "worker_messages st =
     map Item (yielded st) @ (case control st of Aborted e \<Rightarrow> [Error e] | _ \<Rightarrow> []) @ [Done]"

text \<open>
  The consumer's loop is at one of: the call \<^verbatim>\<open>result_queue.get(timeout=0.1)\<close> (\<open>Polling\<close>);
  the handler of \<^verbatim>\<open>queue.Empty\<close>, before it evaluates \<^verbatim>\<open>t.is_alive()\<close> (\<open>Checking\<close>); after the loop
  (\<open>Ended\<close>: the generator returns normally); or left by \<^verbatim>\<open>raise payload\<close> (\<open>Reraised\<close>).
\<close>

datatype consumer = Polling_queue | Checking | Ended | Reraised py_exception

text \<open>The two threads and the queue between them: the entries the worker has still to put,
  the queue, whether the worker thread is alive, the consumer's control point and the
  results it has yielded to its caller.\<close>

record bridge =
  to_put :: "message list"
  queue :: "message list"
  alive :: bool
  consumer :: consumer
  delivered :: "document_result list"

definition initial_bridge :: "message list \<Rightarrow> bridge" where
  "initial_bridge msgs =
     \<lparr>to_put = msgs, queue = [], alive = True, consumer = Polling_queue, delivered = []\<rparr>"

text \<open>
  The steps of the two threads, which interleave freely. The worker puts its next entry
  (\<open>put\<close>) and, when it has none left, its thread ends (\<open>exit\<close>). The consumer's \<^verbatim>\<open>get\<close> takes
  the first entry of a queue that is not empty and acts on its kind (\<open>get_item\<close>, \<open>get_error\<close>,
  \<open>get_done\<close>), or raises \<^verbatim>\<open>queue.Empty\<close> when the queue is empty at the end of the timeout
  (\<open>timeout\<close>); the handler then tests \<^verbatim>\<open>t.is_alive()\<close> (\<open>check_alive\<close>, \<open>check_dead\<close>).
\<close>

inductive bridge_step :: "bridge \<Rightarrow> bridge \<Rightarrow> bool" where
  put:
    "to_put b = m # ms \<Longrightarrow> bridge_step b (b\<lparr>to_put := ms, queue := queue b @ [m]\<rparr>)"
| exit:
    "\<lbrakk>to_put b = []; alive b\<rbrakk> \<Longrightarrow> bridge_step b (b\<lparr>alive := False\<rparr>)"
| get_item:
    "\<lbrakk>consumer b = Polling_queue; queue b = Item r # q\<rbrakk>
     \<Longrightarrow> bridge_step b (b\<lparr>queue := q, delivered := delivered b @ [r]\<rparr>)"
| get_error:
    "\<lbrakk>consumer b = Polling_queue; queue b = Error e # q\<rbrakk>
     \<Longrightarrow> bridge_step b (b\<lparr>queue := q, consumer := Reraised e\<rparr>)"
| get_done:
    "\<lbrakk>consumer b = Polling_queue; queue b = Done # q\<rbrakk>
     \<Longrightarrow> bridge_step b (b\<lparr>queue := q, consumer := Ended\<rparr>)"
| timeout:
    "\<lbrakk>consumer b = Polling_queue; queue b = []\<rbrakk>
     \<Longrightarrow> bridge_step b (b\<lparr>consumer := Checking\<rparr>)"
| check_alive:
    "\<lbrakk>consumer b = Checking; alive b\<rbrakk> \<Longrightarrow> bridge_step b (b\<lparr>consumer := Polling_queue\<rparr>)"
| check_dead:
    "\<lbrakk>consumer b = Checking; \<not> alive b\<rbrakk> \<Longrightarrow> bridge_step b (b\<lparr>consumer := Ended\<rparr>)"

definition bridge_reaches :: "message list \<Rightarrow> bridge \<Rightarrow> bool" where
  "bridge_reaches msgs b = rtranclp bridge_step (initial_bridge msgs) b"


section \<open>Properties of the chunk planner\<close>

lemma ceil_step:
  assumes "0 < k" "0 < (m::nat)"
  shows "(m + k - 1) div k = Suc ((m - k + k - 1) div k)"
proof -
  obtain j where j: "m = Suc j" using assms(2) by (cases m) auto
  have a: "(m + k - 1) div k = Suc (j div k)" using assms(1) by (simp add: j)
  show ?thesis
  proof (cases "k \<le> m")
    case True
    then have "m - k + k - 1 = j" by (simp add: j)
    with a show ?thesis by simp
  next
    case False
    then have "m - k + k - 1 = k - 1" by (auto simp: j)
    moreover have "(k - 1) div k = 0" using assms(1) by simp
    moreover have "j div k = 0" using False by (simp add: j)
    ultimately show ?thesis using a by simp
  qed
qed

lemma ceil_nat:
  assumes "0 < k"
  shows "\<lceil>real n / real k\<rceil> = int ((n + k - 1) div k)"
proof (cases n)
  case 0
  then show ?thesis using assms by simp
next
  case (Suc j)
  define q where "q = (n + k - 1) div k"
  have nk: "n + k - 1 = j + k" by (simp add: Suc)
  have "q * k \<le> j + k" unfolding q_def nk by simp
  moreover have "j + k < q * k + k"
    unfolding q_def nk using assms
    by (metis add.commute dividend_less_div_times mult.commute)
  ultimately have b: "q * k < n + k" "n \<le> q * k" by (auto simp: Suc)
  have "real (q * k) < real (n + k)" "real n \<le> real (q * k)" using b by linarith+
  then have "real q * real k - real k < real n" "real n \<le> real q * real k" by simp_all
  then have "real q - 1 < real n / real k" "real n / real k \<le> real q"
    using assms by (simp_all add: field_simps)
  then have "\<lceil>real n / real k\<rceil> = int q"
    by (intro ceiling_unique) simp_all
  then show ?thesis by (simp add: q_def)
qed

lemma chunk_loop_concat: "0 < k \<Longrightarrow> concat (chunk_loop k xs i) = drop i xs"
proof (induction k xs i rule: chunk_loop.induct)
  case (1 k xs i)
  show ?case
  proof (cases "i < length xs")
    case True
    have "take k (drop i xs) @ drop k (drop i xs) = drop i xs"
      by (rule append_take_drop_id)
    then have "take k (drop i xs) @ drop (i + k) xs = drop i xs"
      by (simp add: add.commute)
    with 1 True show ?thesis
      by (subst chunk_loop.simps) simp
  next
    case False
    then show ?thesis by (subst chunk_loop.simps) simp
  qed
qed

lemma chunk_loop_step:
  "0 < k \<Longrightarrow> i < length xs \<Longrightarrow>
   chunk_loop k xs i = take k (drop i xs) # chunk_loop k xs (i + k)"
  by (subst chunk_loop.simps) simp

lemma chunk_loop_stop: "\<not> (0 < k \<and> i < length xs) \<Longrightarrow> chunk_loop k xs i = []"
  by (subst chunk_loop.simps) simp

lemma chunk_loop_length:
  "0 < k \<Longrightarrow> length (chunk_loop k xs i) = (length xs - i + k - 1) div k"
proof (induction k xs i rule: chunk_loop.induct)
  case (1 k xs i)
  show ?case
  proof (cases "i < length xs")
    case True
    have ih: "length (chunk_loop k xs (i + k)) = (length xs - (i + k) + k - 1) div k"
      using 1 True by simp
    have d: "length xs - (i + k) = length xs - i - k" by simp
    have pos: "0 < length xs - i" using True by simp
    have "length (chunk_loop k xs i) = Suc (length (chunk_loop k xs (i + k)))"
      by (simp only: chunk_loop_step[OF \<open>0 < k\<close> True] list.size(4) Suc_eq_plus1)
    also have "\<dots> = Suc ((length xs - i - k + k - 1) div k)"
      by (simp only: ih d)
    also have "\<dots> = (length xs - i + k - 1) div k"
      by (rule ceil_step[OF \<open>0 < k\<close> pos, symmetric])
    finally show ?thesis .
  next
    case False
    then have "chunk_loop k xs i = []" by (intro chunk_loop_stop) simp
    moreover have "(length xs - i + k - 1) div k = 0" using False \<open>0 < k\<close> by simp
    ultimately show ?thesis by simp
  qed
qed

lemma chunk_loop_sizes: "c \<in> set (chunk_loop k xs i) \<Longrightarrow> length c \<le> k"
proof (induction k xs i rule: chunk_loop.induct)
  case (1 k xs i)
  then show ?case
    by (subst (asm) (2) chunk_loop.simps) (auto split: if_splits)
qed

text \<open>
  Claim C2. For an ordered target list of length \<open>n\<close> and a cap \<open>k > 0\<close> the planner
  produces \<open>\<lceil>n / k\<rceil>\<close> chunks, each of at most \<open>k\<close> elements, whose concatenation in
  order is the original list; with the cap absent or not positive it produces the one
  chunk that is the original list.
\<close>

theorem chunk_planner_partition:
  "(\<forall>k. cap = Some k \<longrightarrow> 0 < k \<longrightarrow>
       int (length (plan_chunks cap targets)) = \<lceil>real (length targets) / real_of_int k\<rceil>
     \<and> (\<forall>c \<in> set (plan_chunks cap targets). int (length c) \<le> k)
     \<and> concat (plan_chunks cap targets) = targets)
   \<and> ((cap = None \<or> (\<exists>k. cap = Some k \<and> k \<le> 0)) \<longrightarrow>
        plan_chunks cap targets = [targets])"
proof (intro conjI allI impI)
  fix k :: int
  assume c: "cap = Some k" and k: "0 < k"
  then have pc: "plan_chunks cap targets = chunk_loop (nat k) targets 0"
    by (simp add: plan_chunks_def)
  have nk: "0 < nat k" using k by simp
  have r: "real (nat k) = real_of_int k" using k by (simp only: of_nat_nat)
  have len: "length (plan_chunks cap targets) = (length targets + nat k - 1) div nat k"
    using chunk_loop_length[OF nk, of targets 0] by (simp add: pc)
  from ceil_nat[OF nk, of "length targets"]
  have "\<lceil>real (length targets) / real_of_int k\<rceil>
        = int ((length targets + nat k - 1) div nat k)"
    by (simp only: r)
  then show "int (length (plan_chunks cap targets)) = \<lceil>real (length targets) / real_of_int k\<rceil>"
    by (simp only: len)
  show "\<forall>c \<in> set (plan_chunks cap targets). int (length c) \<le> k"
  proof
    fix c assume "c \<in> set (plan_chunks cap targets)"
    then have "length c \<le> nat k" unfolding pc by (rule chunk_loop_sizes)
    then show "int (length c) \<le> k" using k by linarith
  qed
  show "concat (plan_chunks cap targets) = targets"
    using chunk_loop_concat[OF nk, of targets 0] by (simp add: pc)
next
  assume "cap = None \<or> (\<exists>k. cap = Some k \<and> k \<le> 0)"
  then show "plan_chunks cap targets = [targets]"
    by (auto simp: plan_chunks_def)
qed

theorem chunk_planner_partition_witness:
  "(0::int) < 2
   \<and> plan_chunks (Some 2) [''a'', ''b'', ''c'', ''d'', ''e''] = [[''a'', ''b''], [''c'', ''d''], [''e'']]
   \<and> int (length (plan_chunks (Some 2) [''a'', ''b'', ''c'', ''d'', ''e''])) = \<lceil>real 5 / real_of_int 2\<rceil>
   \<and> list_all (\<lambda>c. int (length c) \<le> 2) (plan_chunks (Some 2) [''a'', ''b'', ''c'', ''d'', ''e''])
   \<and> concat (plan_chunks (Some 2) [''a'', ''b'', ''c'', ''d'', ''e'']) = [''a'', ''b'', ''c'', ''d'', ''e'']
   \<and> plan_chunks None [''a'', ''b'', ''c''] = [[''a'', ''b'', ''c'']]
   \<and> plan_chunks (Some (- 1)) [''a'', ''b'', ''c''] = [[''a'', ''b'', ''c'']]"
proof -
  have e: "plan_chunks (Some 2) [''a'', ''b'', ''c'', ''d'', ''e''] = [[''a'', ''b''], [''c'', ''d''], [''e'']]"
    by (simp add: plan_chunks_def chunk_loop_step chunk_loop_stop)
  show ?thesis
    using chunk_planner_partition [of "Some 2" "[''a'', ''b'', ''c'', ''d'', ''e'']"]
      chunk_planner_partition [of None "[''a'', ''b'', ''c'']"]
      chunk_planner_partition [of "Some (- 1)" "[''a'', ''b'', ''c'']"]
    by (simp add: e)
qed
section \<open>Properties of the retrying requester\<close>

lemma retry_loop_exit:
  "\<not> attempts \<le> retries \<Longrightarrow>
   call_llm_with_retry_loop chat retries messages attempts errors s =
     (\<lparr>retry_success = False, retry_result = None, retry_errors = errors\<rparr>, s)"
  by (subst call_llm_with_retry_loop.simps) simp

lemma retry_loop_ok:
  "attempts \<le> retries \<Longrightarrow> chat s messages = (Returned result, s') \<Longrightarrow> llm_success result \<Longrightarrow>
   call_llm_with_retry_loop chat retries messages attempts errors s =
     (\<lparr>retry_success = True, retry_result = Some result, retry_errors = errors\<rparr>, s')"
  by (subst call_llm_with_retry_loop.simps) simp

lemma retry_loop_fail:
  "attempts \<le> retries \<Longrightarrow> chat s messages = (out, s') \<Longrightarrow> \<not> attempt_ok out \<Longrightarrow>
   call_llm_with_retry_loop chat retries messages attempts errors s =
     call_llm_with_retry_loop chat retries messages (attempts + 1)
       (errors @ [''Attempt '' @ str_of_int (attempts + 1) @ '': '' @ failure_text out]) s'"
  by (subst call_llm_with_retry_loop.simps)
     (simp add: attempt_ok_def failure_text_def split: call_outcome.splits)

lemma retry_loop_post:
  assumes "d = nat (r + 1 - int j)"
    and "int j \<le> r + 1" and "1 \<le> j \<or> int j \<le> r"
    and "\<forall>k<j. \<not> attempt_ok (outcome_at chat messages s k)"
    and "es = map (\<lambda>k. ''Attempt '' @ str_of_int (int k + 1) @ '': ''
                            @ failure_text (outcome_at chat messages s k)) [0..<j]"
  shows "\<exists>n. retry_post chat r messages s
           (call_llm_with_retry_loop chat r messages (int j) es (state_after chat messages s j)) n"
  using assms
proof (induction d arbitrary: j es)
  case 0
  then have j: "int j = r + 1" "1 \<le> j" by auto
  then have ex: "\<not> int j \<le> r" by simp
  have "\<not> attempt_ok (outcome_at chat messages s (j - 1))" using 0(4) j by simp
  then have "retry_post chat r messages s
           (call_llm_with_retry_loop chat r messages (int j) es (state_after chat messages s j)) j"
    using 0 j unfolding retry_loop_exit[OF ex] retry_post_def by simp
  then show ?case ..
next
  case (Suc d)
  then have le: "int j \<le> r" by simp
  obtain out s' where c: "chat (state_after chat messages s j) messages = (out, s')"
    by (cases "chat (state_after chat messages s j) messages")
  then have out: "outcome_at chat messages s j = out" and s': "state_after chat messages s (Suc j) = s'"
    by (simp_all add: outcome_at_def)
  show ?case
  proof (cases "attempt_ok out")
    case True
    then obtain result where r: "out = Returned result" "llm_success result"
      by (auto simp: attempt_ok_def split: call_outcome.splits)
    have "retry_post chat r messages s
           (call_llm_with_retry_loop chat r messages (int j) es (state_after chat messages s j)) (Suc j)"
      unfolding retry_loop_ok[where chat=chat and s="state_after chat messages s j" and messages=messages, OF le c[unfolded r(1)] r(2)] retry_post_def
      using Suc.prems le True out s' r by simp
    then show ?thesis ..
  next
    case False
    have es': "es @ [''Attempt '' @ str_of_int (int j + 1) @ '': '' @ failure_text out]
       = map (\<lambda>k. ''Attempt '' @ str_of_int (int k + 1) @ '': ''
                            @ failure_text (outcome_at chat messages s k)) [0..<Suc j]"
      using Suc.prems(5) out by simp
    have all: "\<forall>k<Suc j. \<not> attempt_ok (outcome_at chat messages s k)"
      using Suc.prems(4) False out by (auto simp: less_Suc_eq)
    have "\<exists>n. retry_post chat r messages s
           (call_llm_with_retry_loop chat r messages (int (Suc j))
              (es @ [''Attempt '' @ str_of_int (int j + 1) @ '': '' @ failure_text out])
              (state_after chat messages s (Suc j))) n"
      using Suc.prems(1) le all es'
      by (intro Suc.IH) auto
    then show ?thesis
      unfolding retry_loop_fail[where chat=chat and s="state_after chat messages s j" and messages=messages, OF le c False] s' by (simp add: add.commute)
  qed
qed

lemma state_after_counting:
  "state_after (counting chat) messages (c, s) k = (c + k, state_after chat messages s k)"
  by (induction k) (simp_all add: counting_def split: prod.splits)

lemma outcome_at_counting:
  "outcome_at (counting chat) messages (c, s) k = outcome_at chat messages s k"
  unfolding outcome_at_def state_after_counting
  by (simp add: counting_def split: prod.splits)

lemma str_of_nat_digit: "n < 10 \<Longrightarrow> str_of_nat n = [digit_char n]"
  by (subst str_of_nat.simps) simp

text \<open>
  Claim C3. With \<open>retries = r \<ge> 0\<close> the requester makes \<open>n\<close> calls of the client with
  \<open>1 \<le> n \<le> r + 1\<close> (the counting client's counter grows by \<open>n\<close>); every attempt before the
  last one failed; it returns success exactly when the last attempt made succeeded, with
  that attempt's result; otherwise \<open>n = r + 1\<close> and it returns failure with \<open>r + 1\<close> error
  messages. In both cases entry \<open>i\<close> (from 0) of the error list is the text of failed attempt
  \<open>i + 1\<close>, labelled \<^verbatim>\<open>Attempt <i+1>: \<close>.
\<close>

theorem retry_requester_attempts:
  assumes "0 \<le> r"
  shows "\<exists>n. 1 \<le> n \<and> int n \<le> r + 1
     \<and> snd (call_llm_with_retry (counting chat) r messages (c, s))
          = (c + n, state_after chat messages s n)
     \<and> (\<forall>k<n - 1. \<not> attempt_ok (outcome_at chat messages s k))
     \<and> (let res = fst (call_llm_with_retry (counting chat) r messages (c, s)) in
          (\<forall>i<length (retry_errors res).
              retry_errors res ! i =
                ''Attempt '' @ str_of_int (int i + 1) @ '': ''
                  @ failure_text (outcome_at chat messages s i))
        \<and> (if attempt_ok (outcome_at chat messages s (n - 1))
           then retry_success res
              \<and> (\<exists>result. retry_result res = Some result
                    \<and> outcome_at chat messages s (n - 1) = Returned result)
              \<and> length (retry_errors res) = n - 1
           else \<not> retry_success res \<and> retry_result res = None \<and> int n = r + 1
              \<and> length (retry_errors res) = n))"
proof -
  have "\<exists>n. retry_post (counting chat) r messages (c, s)
           (call_llm_with_retry_loop (counting chat) r messages (int 0) []
              (state_after (counting chat) messages (c, s) 0)) n"
    using assms by (intro retry_loop_post) auto
  then obtain n where p: "retry_post (counting chat) r messages (c, s)
           (call_llm_with_retry (counting chat) r messages (c, s)) n"
    by (auto simp: call_llm_with_retry_def)
  define res where "res = fst (call_llm_with_retry (counting chat) r messages (c, s))"
  note q = p[unfolded retry_post_def outcome_at_counting state_after_counting, folded res_def]
  have n: "1 \<le> n" "int n \<le> r + 1" using q by simp_all
  have st: "snd (call_llm_with_retry (counting chat) r messages (c, s))
          = (c + n, state_after chat messages s n)" using q by simp
  have before: "\<forall>k<n - 1. \<not> attempt_ok (outcome_at chat messages s k)" using q by simp
  have labels: "\<forall>i<length (retry_errors res).
              retry_errors res ! i =
                ''Attempt '' @ str_of_int (int i + 1) @ '': ''
                  @ failure_text (outcome_at chat messages s i)"
    using q by (auto split: if_splits)
  have final: "if attempt_ok (outcome_at chat messages s (n - 1))
           then retry_success res
              \<and> (\<exists>result. retry_result res = Some result
                    \<and> outcome_at chat messages s (n - 1) = Returned result)
              \<and> length (retry_errors res) = n - 1
           else \<not> retry_success res \<and> retry_result res = None \<and> int n = r + 1
              \<and> length (retry_errors res) = n"
    using q by (auto split: if_splits)
  show ?thesis
    unfolding Let_def res_def[symmetric]
    using n st before labels final by blast
qed

theorem retry_requester_attempts_witness:
  "(0::int) \<le> 3
   \<and> call_llm_with_retry (counting (flaky_client 5)) 3 () (0, 0) =
      (\<lparr>retry_success = False, retry_result = None,
        retry_errors = [''Attempt 1: Simulated Failure'', ''Attempt 2: Simulated Failure'',
                        ''Attempt 3: Simulated Failure'', ''Attempt 4: Simulated Failure'']\<rparr>,
       (4, 4))
   \<and> (\<exists>n. 1 \<le> n \<and> int n \<le> 3 + 1
        \<and> snd (call_llm_with_retry (counting (flaky_client 5)) 3 () (0, 0))
            = (0 + n, state_after (flaky_client 5) () 0 n)
        \<and> \<not> retry_success (fst (call_llm_with_retry (counting (flaky_client 5)) 3 () (0, 0)))
        \<and> length (retry_errors (fst (call_llm_with_retry (counting (flaky_client 5)) 3 ()
                     (0, 0)))) = n)"
proof -
  have h: "(0::int) \<le> 3" by simp
  have e: "call_llm_with_retry (counting (flaky_client 5)) 3 () (0, 0) =
      (\<lparr>retry_success = False, retry_result = None,
        retry_errors = [''Attempt 1: Simulated Failure'', ''Attempt 2: Simulated Failure'',
                        ''Attempt 3: Simulated Failure'', ''Attempt 4: Simulated Failure'']\<rparr>,
       (4, 4))"
    by code_simp
  obtain n where n: "1 \<le> n" "int n \<le> 3 + 1"
     "snd (call_llm_with_retry (counting (flaky_client 5)) 3 () (0, 0))
            = (0 + n, state_after (flaky_client 5) () 0 n)"
     "if attempt_ok (outcome_at (flaky_client 5) () 0 (n - 1))
      then retry_success (fst (call_llm_with_retry (counting (flaky_client 5)) 3 () (0, 0)))
      else \<not> retry_success (fst (call_llm_with_retry (counting (flaky_client 5)) 3 () (0, 0)))
         \<and> length (retry_errors (fst (call_llm_with_retry (counting (flaky_client 5)) 3 ()
                     (0, 0)))) = n"
    using retry_requester_attempts [OF h, of "flaky_client 5" "()" 0 0]
    unfolding Let_def by (auto split: if_splits)
  have "\<not> retry_success (fst (call_llm_with_retry (counting (flaky_client 5)) 3 () (0, 0)))"
    by (simp add: e)
  with n(4) have "\<not> retry_success (fst (call_llm_with_retry (counting (flaky_client 5)) 3 () (0, 0)))
         \<and> length (retry_errors (fst (call_llm_with_retry (counting (flaky_client 5)) 3 ()
                     (0, 0)))) = n"
    by (auto split: if_splits)
  with n(1,2,3) h e show ?thesis by blast
qed

section \<open>Properties of the approximate matcher\<close>

lemma insort_key_tie_order:
  fixes f :: "'a \<Rightarrow> int" and g :: "'a \<Rightarrow> nat"
  assumes "sorted_wrt (\<lambda>a b. f a < f b \<or> (f a = f b \<and> g a \<le> g b)) ys"
    and "\<forall>y\<in>set ys. g x \<le> g y"
  shows "sorted_wrt (\<lambda>a b. f a < f b \<or> (f a = f b \<and> g a \<le> g b)) (insort_key f x ys)"
  using assms
proof (induction ys)
  case Nil
  then show ?case by simp
next
  case (Cons y ys)
  show ?case
  proof (cases "f x \<le> f y")
    case True
    have "\<forall>z\<in>set (y # ys). f x < f z \<or> (f x = f z \<and> g x \<le> g z)"
    proof
      fix z assume z: "z \<in> set (y # ys)"
      then have "f y \<le> f z" using Cons.prems(1) by auto
      with True have "f x \<le> f z" by simp
      moreover have "g x \<le> g z" using Cons.prems(2) z by auto
      ultimately show "f x < f z \<or> (f x = f z \<and> g x \<le> g z)" by auto
    qed
    with True Cons.prems(1) show ?thesis by simp
  next
    case False
    have "sorted_wrt (\<lambda>a b. f a < f b \<or> (f a = f b \<and> g a \<le> g b)) (insort_key f x ys)"
      using Cons by simp
    moreover have "\<forall>z\<in>set (insort_key f x ys). f y < f z \<or> (f y = f z \<and> g y \<le> g z)"
      using Cons.prems(1) False by (auto simp: set_insort_key)
    ultimately show ?thesis using False by simp
  qed
qed

lemma sort_key_tie_order:
  fixes f :: "'a \<Rightarrow> int" and g :: "'a \<Rightarrow> nat"
  assumes "sorted (map g xs)"
  shows "sorted_wrt (\<lambda>a b. f a < f b \<or> (f a = f b \<and> g a \<le> g b)) (sort_key f xs)"
  using assms
proof (induction xs)
  case Nil
  then show ?case by simp
next
  case (Cons x xs)
  then have "sorted_wrt (\<lambda>a b. f a < f b \<or> (f a = f b \<and> g a \<le> g b)) (sort_key f xs)"
    and "\<forall>y\<in>set (sort_key f xs). g x \<le> g y" by auto
  then show ?case by (simp add: insort_key_tie_order)
qed

lemma find_matches_str:
  assumes "find_matches re text (JStr query) fuzzy = Inr ms" and "query \<noteq> []"
  shows "\<exists>pattern spans. regex_finditer re pattern text = Inr spans
     \<and> ms = (if spans \<noteq> []
             then sort_key (\<lambda>m. \<bar>int (length (match_text m)) - int (length query)\<bar>)
                    (map (\<lambda>(i, j). \<lparr>m_start = i, m_end = j, match_text = slice text i j\<rparr>) spans)
             else [])"
  using assms unfolding find_matches_def Let_def
  by (auto simp: py_len_def split: sum.splits option.splits if_splits)

text \<open>
  Claim C7.  When \<^const>\<open>find_matches\<close> returns for a string query, the returned
  matches are in ascending order of the absolute difference between the length of
  the matched text and the length of the query, and two matches with the same
  difference are in ascending order of start position.  The difference is written
  out in the statement.  Every returned match carries the text of its own span of
  the document, and for a non-empty query the returned spans are exactly the
  spans the engine's iterator found, each as often as it was found.  The result is
  a function of the arguments: every result of the same call is this one.  The
  engine is a parameter; its iterator is assumed to yield spans from left to
  right (starts never decrease), as \<^verbatim>\<open>regex.finditer\<close> does.
\<close>

theorem find_matches_order:
  assumes "find_matches re text (JStr query) fuzzy = Inr ms"
    and "\<forall>pattern spans. regex_finditer re pattern text = Inr spans \<longrightarrow> sorted (map fst spans)"
  shows "sorted_wrt (\<lambda>a b.
             \<bar>int (length (match_text a)) - int (length query)\<bar>
               < \<bar>int (length (match_text b)) - int (length query)\<bar>
           \<or> (\<bar>int (length (match_text a)) - int (length query)\<bar>
               = \<bar>int (length (match_text b)) - int (length query)\<bar>
              \<and> m_start a \<le> m_start b)) ms
     \<and> (\<forall>m\<in>set ms. match_text m = take (m_end m - m_start m) (drop (m_start m) text))
     \<and> (query \<noteq> [] \<longrightarrow>
          (\<exists>pattern spans. regex_finditer re pattern text = Inr spans
             \<and> mset (map (\<lambda>m. (m_start m, m_end m)) ms) = mset spans))
     \<and> (\<forall>ms'. find_matches re text (JStr query) fuzzy = Inr ms' \<longrightarrow> ms' = ms)"
proof (cases "query = []")
  case True
  with assms(1) have "ms = []" by (simp add: find_matches_def)
  with True assms(1) show ?thesis by simp
next
  case False
  let ?mk = "\<lambda>(i, j). \<lparr>m_start = i, m_end = j, match_text = slice text i j\<rparr>"
  let ?key = "\<lambda>m. \<bar>int (length (match_text m)) - int (length query)\<bar>"
  from find_matches_str[OF assms(1) False] obtain pattern spans where
    sp: "regex_finditer re pattern text = Inr spans"
    and ms: "ms = (if spans \<noteq> [] then sort_key ?key (map ?mk spans) else [])"
    by blast
  have ms': "ms = sort_key ?key (map ?mk spans)" using ms by (cases spans) simp_all
  have fs: "sorted (map fst spans)" using assms(2) sp by blast
  have "m_start \<circ> ?mk = fst" by (rule ext) (simp split: prod.splits)
  then have "map m_start (map ?mk spans) = map fst spans" by (simp only: map_map)
  with fs have "sorted (map m_start (map ?mk spans))" by (simp only:)
  from sort_key_tie_order[OF this, of "?key"]
  have ord: "sorted_wrt (\<lambda>a b. ?key a < ?key b \<or> (?key a = ?key b \<and> m_start a \<le> m_start b)) ms"
    unfolding ms' .
  have mtx: "\<forall>m\<in>set ms. match_text m = take (m_end m - m_start m) (drop (m_start m) text)"
    unfolding ms' by (auto simp: slice_def)
  have unmk: "map (\<lambda>m. (m_start m, m_end m)) (map ?mk spans) = spans"
    by (induction spans) auto
  have "mset (map (\<lambda>m. (m_start m, m_end m)) ms)
        = mset (map (\<lambda>m. (m_start m, m_end m)) (map ?mk spans))"
    unfolding ms' by (simp only: mset_map mset_sort)
  also have "\<dots> = mset spans" by (simp only: unmk)
  finally have "mset (map (\<lambda>m. (m_start m, m_end m)) ms) = mset spans" .
  with sp have per: "\<exists>pattern spans. regex_finditer re pattern text = Inr spans
             \<and> mset (map (\<lambda>m. (m_start m, m_end m)) ms) = mset spans" by blast
  have det: "\<forall>ms'. find_matches re text (JStr query) fuzzy = Inr ms' \<longrightarrow> ms' = ms"
    using assms(1) by simp
  from ord mtx per det show ?thesis by blast
qed

theorem find_matches_order_witness:
  "find_matches (scripted_regex [(0, 2), (5, 8), (10, 14)]) ''abcdefghijklmnopqrstuvwxyz''
     (JStr ''xyz'') None
     = Inr [\<lparr>m_start = 5, m_end = 8, match_text = ''fgh''\<rparr>,
            \<lparr>m_start = 0, m_end = 2, match_text = ''ab''\<rparr>,
            \<lparr>m_start = 10, m_end = 14, match_text = ''klmn''\<rparr>]
   \<and> sorted (map fst [(0 :: nat, 2 :: nat), (5, 8), (10, 14)])
   \<and> sorted_wrt (\<lambda>a b.
             \<bar>int (length (match_text a)) - int (length ''xyz'')\<bar>
               < \<bar>int (length (match_text b)) - int (length ''xyz'')\<bar>
           \<or> (\<bar>int (length (match_text a)) - int (length ''xyz'')\<bar>
               = \<bar>int (length (match_text b)) - int (length ''xyz'')\<bar>
              \<and> m_start a \<le> m_start b))
         [\<lparr>m_start = 5, m_end = 8, match_text = ''fgh''\<rparr>,
          \<lparr>m_start = 0, m_end = 2, match_text = ''ab''\<rparr>,
          \<lparr>m_start = 10, m_end = 14, match_text = ''klmn''\<rparr>]
   \<and> map (\<lambda>m. \<bar>int (length (match_text m)) - int (length ''xyz'')\<bar>)
         [\<lparr>m_start = 5, m_end = 8, match_text = ''fgh''\<rparr>,
          \<lparr>m_start = 0, m_end = 2, match_text = ''ab''\<rparr>,
          \<lparr>m_start = 10, m_end = 14, match_text = ''klmn''\<rparr>] = [0, 1, 1]"
proof -
  have e: "find_matches (scripted_regex [(0, 2), (5, 8), (10, 14)]) ''abcdefghijklmnopqrstuvwxyz''
     (JStr ''xyz'') None
     = Inr [\<lparr>m_start = 5, m_end = 8, match_text = ''fgh''\<rparr>,
            \<lparr>m_start = 0, m_end = 2, match_text = ''ab''\<rparr>,
            \<lparr>m_start = 10, m_end = 14, match_text = ''klmn''\<rparr>]"
    by (simp add: find_matches_def scripted_regex_def dict_get_def slice_def py_len_def)
  have h: "\<forall>pattern spans.
      regex_finditer (scripted_regex [(0, 2), (5, 8), (10, 14)]) pattern
        ''abcdefghijklmnopqrstuvwxyz'' = Inr spans \<longrightarrow> sorted (map fst spans)"
    by (auto simp: scripted_regex_def)
  show ?thesis using find_matches_order [OF e h] e by simp
qed
section \<open>Properties of post-processing\<close>

lemma dict_get_dict_set:
  "dict_get (dict_set d k v) k' = (if k' = k then Some v else dict_get d k')"
  by (induction d) (auto simp: dict_get_def)

lemma build_item_answer:
  assumes "build_item re cfg note_text el_def raw_val = Inr item"
  shows "answer item = fst (read_raw_val raw_val)"
proof -
  obtain a r g where t: "read_raw_val raw_val = (a, r, g)" by (cases "read_raw_val raw_val")
  show ?thesis
  proof (cases "el_grounding el_def \<and> truthy g")
    case False
    with assms t show ?thesis by (auto simp: build_item_def Let_def)
  next
    case True
    with assms t show ?thesis
      by (simp add: build_item_def Let_def split: sum.splits) auto
  qed
qed

lemma read_raw_val_answer:
  "dict_get kvs ''answer'' = Some a \<Longrightarrow> fst (read_raw_val (JObj kvs)) = a"
  by (auto simp: read_raw_val_def dict_has_def dict_get_def dest: map_of_SomeD
           intro: rev_image_eqI)

lemma read_raw_val_value:
  "dict_get kvs ''answer'' = None \<Longrightarrow> dict_get kvs ''value'' = Some v \<Longrightarrow>
   fst (read_raw_val (JObj kvs)) = v"
  by (auto simp: read_raw_val_def dict_has_def dict_get_def json_get_def dest: map_of_SomeD
           intro: rev_image_eqI)

lemma post_process_loop_items:
  assumes "post_process_loop re cfg sch raw_extraction note_text targets acc = Inr processed"
    and "dict_get processed el_name = Some item"
  shows "dict_get acc el_name = Some item
       \<or> (\<exists>el_def raw_val. el_name \<in> set targets \<and> get_element sch el_name = Some el_def
            \<and> py_getitem raw_extraction el_name = Inr raw_val
            \<and> build_item re cfg note_text el_def raw_val = Inr item)"
  using assms
proof (induction targets arbitrary: acc)
  case Nil
  then show ?case by simp
next
  case (Cons t targets)
  show ?case
  proof (cases "get_element sch t")
    case None
    with Cons.prems have "post_process_loop re cfg sch raw_extraction note_text targets acc = Inr processed"
      by simp
    from Cons.IH[OF this Cons.prems(2)] show ?thesis by auto
  next
    case (Some el_def)
    show ?thesis
    proof (cases "py_contains raw_extraction t")
      case (Inl e)
      with Some Cons.prems show ?thesis by simp
    next
      case (Inr present)
      show ?thesis
      proof (cases present)
        case False
        with Some Inr Cons.prems have "post_process_loop re cfg sch raw_extraction note_text targets acc = Inr processed"
          by simp
        from Cons.IH[OF this Cons.prems(2)] show ?thesis by auto
      next
        case True
        with Some Inr Cons.prems obtain raw_val item' where
          g: "py_getitem raw_extraction t = Inr raw_val"
          and b: "build_item re cfg note_text el_def raw_val = Inr item'"
          and l: "post_process_loop re cfg sch raw_extraction note_text targets
                    (dict_set acc t item') = Inr processed"
          by (auto split: sum.splits)
        from Cons.IH[OF l Cons.prems(2)] show ?thesis
          using Some g b by (auto simp: dict_get_dict_set split: if_splits)
      qed
    qed
  qed
qed

text \<open>
  Claim C10. For every entry that \<^verbatim>\<open>_post_process_extraction\<close> returns for an element, the
  entry was built from the raw value found under the element's name, and when that raw
  value is an object: if it has an \<^verbatim>\<open>"answer"\<close> key the entry's answer is the value under
  \<^verbatim>\<open>"answer"\<close> (whether or not a \<^verbatim>\<open>"value"\<close> key is present too), and the value under
  \<^verbatim>\<open>"value"\<close> is the answer only when \<^verbatim>\<open>"answer"\<close> is absent.
\<close>

theorem answer_key_precedence:
  assumes "post_process_extraction re cfg sch raw_extraction note_text element_names
             = Inr processed"
    and "dict_get processed el_name = Some item"
  shows "\<exists>raw_val. py_getitem raw_extraction el_name = Inr raw_val
     \<and> (\<forall>kvs. raw_val = JObj kvs \<longrightarrow>
           (\<forall>a. dict_get kvs ''answer'' = Some a \<longrightarrow> answer item = a)
         \<and> (dict_get kvs ''answer'' = None \<longrightarrow>
              (\<forall>v. dict_get kvs ''value'' = Some v \<longrightarrow> answer item = v)))"
proof -
  from post_process_loop_items[OF assms(1)[unfolded post_process_extraction_def] assms(2)]
  obtain el_def raw_val where g: "py_getitem raw_extraction el_name = Inr raw_val"
    and b: "build_item re cfg note_text el_def raw_val = Inr item"
    by (auto simp: dict_get_def)
  have "\<forall>kvs. raw_val = JObj kvs \<longrightarrow>
           (\<forall>a. dict_get kvs ''answer'' = Some a \<longrightarrow> answer item = a)
         \<and> (dict_get kvs ''answer'' = None \<longrightarrow>
              (\<forall>v. dict_get kvs ''value'' = Some v \<longrightarrow> answer item = v))"
    using build_item_answer[OF b] read_raw_val_answer read_raw_val_value by metis
  with g show ?thesis by blast
qed

theorem answer_key_precedence_witness:
  "post_process_extraction (scripted_regex [(0, 9)]) None
     [(''dx'', \<lparr>el_grounding = True, el_reasoning = False\<rparr>)]
     (JObj [(''dx'', JObj [(''value'', JStr ''cold''), (''answer'', JStr ''flu''),
                           (''grounding'', JArr [JArr [JStr ''tumor'', JStr ''size'']])])])
     ''tumorsize 3cm'' None
     = Inr [(''dx'', \<lparr>answer = JStr ''flu'', reasoning = None,
                       grounding = Some [\<lparr>span_text = JArr [JStr ''tumor'', JStr ''size''],
                                          anchors = [(0, 9)]\<rparr>]\<rparr>)]
   \<and> dict_get [(''dx'', \<lparr>answer = JStr ''flu'', reasoning = None,
                       grounding = Some [\<lparr>span_text = JArr [JStr ''tumor'', JStr ''size''],
                                          anchors = [(0, 9)]\<rparr>]\<rparr>)] ''dx''
     = Some \<lparr>answer = JStr ''flu'', reasoning = None,
             grounding = Some [\<lparr>span_text = JArr [JStr ''tumor'', JStr ''size''],
                                anchors = [(0, 9)]\<rparr>]\<rparr>
   \<and> dict_get [(''value'', JStr ''cold''), (''answer'', JStr ''flu''),
                (''grounding'', JArr [JArr [JStr ''tumor'', JStr ''size'']])] ''answer''
     = Some (JStr ''flu'')
   \<and> answer \<lparr>answer = JStr ''flu'', reasoning = None,
              grounding = Some [\<lparr>span_text = JArr [JStr ''tumor'', JStr ''size''],
                                 anchors = [(0, 9)]\<rparr>]\<rparr> = JStr ''flu''"
proof -
  let ?item = "\<lparr>answer = JStr ''flu'', reasoning = None,
                 grounding = Some [\<lparr>span_text = JArr [JStr ''tumor'', JStr ''size''],
                                    anchors = [(0, 9)]\<rparr>]\<rparr>"
  let ?obj = "[(''value'', JStr ''cold''), (''answer'', JStr ''flu''),
               (''grounding'', JArr [JArr [JStr ''tumor'', JStr ''size'']])]"
  have f: "find_matches (scripted_regex [(0, 9)]) ''tumorsize 3cm''
             (JArr [JStr ''tumor'', JStr ''size'']) None
           = Inr [\<lparr>m_start = 0, m_end = 9, match_text = ''tumorsize''\<rparr>]"
    by (simp add: find_matches_def scripted_regex_def dict_get_def slice_def py_len_def)
  have e: "post_process_extraction (scripted_regex [(0, 9)]) None
     [(''dx'', \<lparr>el_grounding = True, el_reasoning = False\<rparr>)]
     (JObj [(''dx'', JObj ?obj)]) ''tumorsize 3cm'' None
     = Inr [(''dx'', ?item)]"
    by (simp add: post_process_extraction_def resolve_targets_def get_element_def dict_get_def
          py_contains_def py_getitem_def dict_has_def build_item_def read_raw_val_def
          json_get_def py_iter_def f)
  have g: "dict_get [(''dx'', ?item)] ''dx'' = Some ?item"
    by (simp add: dict_get_def)
  have a: "dict_get ?obj ''answer'' = Some (JStr ''flu'')"
    by (simp add: dict_get_def)
  from answer_key_precedence [OF e g] obtain raw_val where
    r: "py_getitem (JObj [(''dx'', JObj ?obj)]) ''dx'' = Inr raw_val"
    and k: "\<forall>kvs. raw_val = JObj kvs \<longrightarrow>
           (\<forall>a. dict_get kvs ''answer'' = Some a \<longrightarrow> answer ?item = a)
         \<and> (dict_get kvs ''answer'' = None \<longrightarrow>
              (\<forall>v. dict_get kvs ''value'' = Some v \<longrightarrow> answer ?item = v))"
    by blast
  from r have "raw_val = JObj ?obj"
    by (simp add: py_getitem_def dict_get_def)
  with k a have "answer ?item = JStr ''flu''"
    by blast
  with e g a show ?thesis by blast
qed
section \<open>Properties of the document extractor\<close>























text \<open>
  Claim C1 at a response that is the empty JSON object. The single chunk's request succeeds
  at the first attempt and \<^verbatim>\<open>_parse_response\<close> decodes the content \<^verbatim>\<open>{}\<close> without an error, yet
  \<^verbatim>\<open>process_note\<close> takes the branch of \<^verbatim>\<open>if raw_extraction:\<close> for a failed parse, because an
  empty dictionary is falsy: the result has \<open>success = False\<close> and the error
  \<^verbatim>\<open>Failed to parse JSON response for chunk ['dx']: None\<close>.
\<close>

theorem empty_object_response_marked_failed:
  "call_llm_with_retry scripted_client 3 (''text'', [''dx'']) [Returned (simulated_success ''{}'')]
     = (\<lparr>retry_success = True, retry_result = Some (simulated_success ''{}''),
         retry_errors = []\<rparr>, [])
   \<and> parse_response (table_loads [(''{}'', JObj [])]) (simulated_success ''{}'')
     = Inr (Some (JObj []), None)
   \<and> process_note (example_collaborators [(''{}'', JObj [])])
         (example_processor [(''dx'', plain_element)] 3 None) ''n1'' ''text'' None
         [Returned (simulated_success ''{}'')]
     = (Inr \<lparr>result_id = ''n1'', extraction = [],
               result_errors = [''Failed to parse JSON response for chunk ''
                                  @ repr_list quote_repr [''dx''] @ '': None''],
               success = False, chunks = None, usage = None,
               result_error = Some ''One or more chunks failed'', raw_response = None\<rparr>, [])"
  by code_simp

section \<open>Properties of the resume ledger\<close>

lemma dict_has_iff: "dict_has d k \<longleftrightarrow> dict_get d k \<noteq> None"
  by (simp add: dict_has_def dict_get_def map_of_eq_None_iff)

lemma load_ids_loop_records:
  "list_all record_line lines \<Longrightarrow> load_ids_loop lines ids = Inr (ids \<union> ledger_ids lines)"
proof (induction lines arbitrary: ids)
  case Nil
  then show ?case by (simp add: ledger_ids_def)
next
  case (Cons line lines)
  then obtain kvs where l: "line = Inr (JObj kvs)"
    and h: "case dict_get kvs ''id'' of Some v \<Rightarrow> hashable v | None \<Rightarrow> True"
    by (auto simp: record_line_def split: sum.splits json.splits)
  have rest: "list_all record_line lines" using Cons.prems by simp
  show ?case
  proof (cases "dict_get kvs ''id''")
    case None
    then have "ledger_ids (line # lines) = ledger_ids lines"
      by (auto simp: ledger_ids_def l)
    with None Cons.IH[OF rest] show ?thesis
      by (simp add: l py_contains_def dict_has_iff)
  next
    case (Some v)
    then have "ledger_ids (line # lines) = insert (set_member v) (ledger_ids lines)"
      by (auto simp: ledger_ids_def l)
    with Some h Cons.IH[OF rest, of "insert (set_member v) ids"] show ?thesis
      by (simp add: l py_contains_def py_getitem_def dict_has_iff)
  qed
qed

lemma load_ids_loop_rejected:
  "Inl msg \<in> set lines \<Longrightarrow> \<exists>e. load_ids_loop lines ids = Inl e"
proof (induction lines arbitrary: ids)
  case Nil
  then show ?case by simp
next
  case (Cons line lines)
  show ?case
  proof (cases line)
    case (Inl m)
    then show ?thesis by simp
  next
    case (Inr obj)
    with Cons.prems have "Inl msg \<in> set lines" by auto
    from Cons.IH[OF this] show ?thesis
      by (auto simp: Inr split: sum.splits bool.splits)
  qed
qed

lemma load_ids_loop_first_rejected:
  "list_all record_line pre \<Longrightarrow>
   load_ids_loop (pre @ Inl msg # rest) ids = Inl (Raise InvalidLineError msg)"
proof (induction pre arbitrary: ids)
  case Nil
  then show ?case by simp
next
  case (Cons line pre)
  then obtain kvs where l: "line = Inr (JObj kvs)"
    and h: "case dict_get kvs ''id'' of Some v \<Rightarrow> hashable v | None \<Rightarrow> True"
    by (auto simp: record_line_def split: sum.splits json.splits)
  have p: "list_all record_line pre" using Cons.prems by simp
  show ?case
  proof (cases "dict_get kvs ''id''")
    case None
    with Cons.IH[OF p] show ?thesis
      by (simp add: l py_contains_def dict_has_iff)
  next
    case (Some v)
    with h Cons.IH[OF p, of "insert (set_member v) ids"] show ?thesis
      by (simp add: l py_contains_def py_getitem_def dict_has_iff)
  qed
qed

text \<open>
  Claim C6, as the code has it. Loading does not raise for a missing ledger file, which
  gives the empty id set. A file whose lines are all objects (with a hashable id where they
  have one) gives the set of their ids, in which ids that are equal in Python (\<^verbatim>\<open>1\<close>, \<^verbatim>\<open>1.0\<close>
  and \<^verbatim>\<open>True\<close>) are one member. A file with a line that the reader rejects is not treated as
  empty: loading raises an exception, and when every line before the first rejected line is
  such an object, the exception is the reader's \<^verbatim>\<open>InvalidLineError\<close> for that line.
\<close>

theorem ledger_loading:
  "load_completed_ids None = Inr {}
   \<and> (\<forall>lines. list_all record_line lines \<longrightarrow>
          load_completed_ids (Some lines) = Inr (ledger_ids lines))
   \<and> (\<forall>lines msg. Inl msg \<in> set lines \<longrightarrow> (\<exists>e. load_completed_ids (Some lines) = Inl e))
   \<and> (\<forall>pre msg rest. list_all record_line pre \<longrightarrow>
          load_completed_ids (Some (pre @ Inl msg # rest)) = Inl (Raise InvalidLineError msg))"
  using load_ids_loop_records[of _ "{}"] load_ids_loop_rejected
    load_ids_loop_first_rejected[of _ _ _ "{}"]
  by (auto simp: load_completed_ids_def)

theorem ledger_loading_witness:
  "load_completed_ids None = Inr {}
   \<and> list_all record_line [Inr (JObj [(''id'', JInt 1)]), Inr (JObj [(''note'', JInt 7)]),
                            Inr (JObj [(''id'', JBool True)]), Inr (JObj [(''id'', JStr ''A'')])]
   \<and> load_completed_ids (Some [Inr (JObj [(''id'', JInt 1)]), Inr (JObj [(''note'', JInt 7)]),
                                Inr (JObj [(''id'', JBool True)]), Inr (JObj [(''id'', JStr ''A'')])])
       = Inr {JInt 1, JStr ''A''}
   \<and> ledger_ids [Inr (JObj [(''id'', JInt 1)]), Inr (JObj [(''note'', JInt 7)]),
                 Inr (JObj [(''id'', JBool True)]), Inr (JObj [(''id'', JStr ''A'')])]
       = {JInt 1, JStr ''A''}
   \<and> Inl ''bad'' \<in> set [Inr (JStr ''valid''), Inl ''bad'']
   \<and> (\<exists>e. load_completed_ids (Some [Inr (JStr ''valid''), Inl ''bad'']) = Inl e)
   \<and> load_completed_ids (Some [Inr (JStr ''valid''), Inl ''bad''])
       = Inl (Raise TypeError ''string indices must be integers, not str'')
   \<and> list_all record_line [Inr (JObj [(''id'', JStr ''A'')])]
   \<and> load_completed_ids (Some ([Inr (JObj [(''id'', JStr ''A'')])] @ Inl ''Expecting value''
                                 # [Inr (JObj [(''id'', JStr ''B'')])]))
       = Inl (Raise InvalidLineError ''Expecting value'')"
proof -
  let ?records = "[Inr (JObj [(''id'', JInt 1)]), Inr (JObj [(''note'', JInt 7)]),
                   Inr (JObj [(''id'', JBool True)]), Inr (JObj [(''id'', JStr ''A'')])]"
  have r: "list_all record_line ?records"
    by (simp add: record_line_def dict_get_def)
  have i: "load_completed_ids (Some ?records) = Inr {JInt 1, JStr ''A''}"
    by (auto simp: load_completed_ids_def py_contains_def py_getitem_def dict_has_def
          dict_get_def)
  have m: "Inl ''bad'' \<in> set [Inr (JStr ''valid''), Inl ''bad'']"
    by simp
  have t: "load_completed_ids (Some [Inr (JStr ''valid''), Inl ''bad''])
       = Inl (Raise TypeError ''string indices must be integers, not str'')"
    by (simp add: load_completed_ids_def py_contains_def py_getitem_def)
  have q: "list_all record_line [Inr (JObj [(''id'', JStr ''A'')])]"
    by (simp add: record_line_def dict_get_def)
  note l = ledger_loading
  from l have a: "load_completed_ids None = Inr {}" by (rule conjunct1)
  from l r have b: "load_completed_ids (Some ?records) = Inr (ledger_ids ?records)" by blast
  from l m have c: "\<exists>e. load_completed_ids (Some [Inr (JStr ''valid''), Inl ''bad'']) = Inl e"
    by blast
  from l q have d: "load_completed_ids (Some ([Inr (JObj [(''id'', JStr ''A'')])]
                       @ Inl ''Expecting value'' # [Inr (JObj [(''id'', JStr ''B'')])]))
       = Inl (Raise InvalidLineError ''Expecting value'')"
    by blast
  from b i have e: "ledger_ids ?records = {JInt 1, JStr ''A''}" by simp
  from a r i e m c t q d show ?thesis by blast
qed

text \<open>
  Claim C6 as stated fails on a malformed file: a ledger whose first line is a complete
  record and whose second line is cut off (as after an interrupted write) makes
  \<^verbatim>\<open>_load_completed_ids\<close> raise the reader's \<^verbatim>\<open>InvalidLineError\<close> instead of yielding an id set.
\<close>

theorem malformed_ledger_raises:
  "load_completed_ids (Some [Inr (JObj [(''id'', JStr ''A''), (''success'', JBool True)]),
                              Inl ''Expecting value''])
     = Inl (Raise InvalidLineError ''Expecting value'')"
  by (simp add: load_completed_ids_def py_contains_def py_getitem_def dict_has_def dict_get_def)
section \<open>Properties of the batch dispatcher\<close>

lemma filter_finished_shorter:
  assumes "finished \<noteq> []" "set finished \<subseteq> set pending"
  shows "length (filter (\<lambda>t. t \<notin> set finished) pending) < length pending"
proof -
  from assms obtain t where "t \<in> set finished" "t \<in> set pending"
    by (cases finished) auto
  then show ?thesis by (intro length_filter_less[of t]) auto
qed

lemma slack_step:
  assumes "dispatch_step co p names st st'" and "slack_invariant (max_parallel_requests p) st"
    and "0 < max_parallel_requests p"
  shows "slack_invariant (max_parallel_requests p) st'"
  using assms
proof (induction rule: dispatch_step.induct)
  case (completed st ph finished)
  from filter_finished_shorter[OF completed(2,4)] completed(5)
  show ?case by (simp add: slack_invariant_def)
next
  case (resume st ph)
  then show ?case
    by (cases ph) (auto simp: slack_invariant_def drain_control_def)
qed (auto simp: slack_invariant_def drain_control_def)

lemma slack_reaches:
  assumes "dispatch_reaches co p names docs s st" and "0 < max_parallel_requests p"
  shows "slack_invariant (max_parallel_requests p) st"
  using assms(1) unfolding dispatch_reaches_def
proof (induction rule: rtranclp_induct)
  case base
  show ?case using assms(2) by (simp add: slack_invariant_def initial_dispatcher_def)
next
  case (step y z)
  then show ?case using slack_step assms(2) by blast
qed

lemma yielded_step:
  "dispatch_step co p names st st' \<Longrightarrow> length (yielded st) \<le> length (yielded st')"
  by (induction rule: dispatch_step.induct) simp_all

lemma wait_step:
  assumes "dispatch_step co p names y z" and "wait_invariant ph st y"
  shows "wait_invariant ph st z"
proof (cases "length (yielded st) < length (yielded y)")
  case True
  with yielded_step[OF assms(1)] show ?thesis by (simp add: wait_invariant_def)
next
  case False
  with assms(2) have r: "remaining y = remaining st" and yl: "yielded y = yielded st"
    and c: "case control y of
             Waiting ph' \<Rightarrow> ph' = ph
           | Yielding ph' ts \<Rightarrow> ph' = ph \<and> ts \<noteq> []
           | Aborted e \<Rightarrow> True
           | _ \<Rightarrow> False"
    by (simp_all add: wait_invariant_def)
  from assms(1) r yl c show ?thesis
    by (induction rule: dispatch_step.induct) (auto simp: wait_invariant_def)
qed

lemma wait_run:
  assumes "rtranclp (dispatch_step co p names) st st'" and "control st = Waiting ph"
  shows "wait_invariant ph st st'"
  using assms(1)
proof (induction rule: rtranclp_induct)
  case base
  show ?case using assms(2) by (simp add: wait_invariant_def)
next
  case (step y z)
  from wait_step[OF step(2) step(3)] show ?case .
qed

lemma collect_one:
  assumes "control st = Waiting ph" and "t \<in> set (pending_tasks st)"
    and "process_note co p (task_note_id t) (task_note_text t) names (client_state st)
           = (Inr r, s')"
  shows "rtranclp (dispatch_step co p names) st
           (st\<lparr>pending_tasks := filter (\<lambda>u. u \<noteq> t) (pending_tasks st),
               yielded := yielded st @ [r], client_state := s',
               control := (case ph of
                             Feeding \<Rightarrow> Pulling
                           | Draining \<Rightarrow>
                               drain_control (filter (\<lambda>u. u \<noteq> t) (pending_tasks st)))\<rparr>)"
proof -
  let ?rest = "filter (\<lambda>u. u \<noteq> t) (pending_tasks st)"
  let ?a = "st\<lparr>pending_tasks := ?rest, control := Yielding ph [t]\<rparr>"
  let ?b = "st\<lparr>pending_tasks := ?rest, yielded := yielded st @ [r], client_state := s',
               control := Yielding ph []\<rparr>"
  let ?c = "st\<lparr>pending_tasks := ?rest, yielded := yielded st @ [r], client_state := s',
               control := (case ph of Feeding \<Rightarrow> Pulling | Draining \<Rightarrow> drain_control ?rest)\<rparr>"
  have 1: "dispatch_step co p names st ?a"
    using dispatch_step.completed[where co=co and p=p and element_names=names and st=st
        and ph=ph and finished="[t]"] assms(1,2)
    by simp
  have 2: "dispatch_step co p names ?a ?b"
    using dispatch_step.yield[where co=co and p=p and element_names=names and st="?a"
        and ph=ph and t=t and ts="[]" and r=r and s'=s'] assms(3)
    by simp
  have 3: "dispatch_step co p names ?b ?c"
    using dispatch_step.resume[where co=co and p=p and element_names=names and st="?b"
        and ph=ph]
    by (cases ph) simp_all
  from 1 2 3 show ?thesis
    by (meson rtranclp.rtrancl_into_rtrancl rtranclp.rtrancl_refl)
qed

lemma process_note_id:
  "process_note co p note_id note_text names s = (Inr r, s') \<Longrightarrow> result_id r = note_id"
  by (auto simp: process_note_def Let_def split: prod.splits sum.splits)

lemma ledger_step:
  assumes "dispatch_step co p names st st'" and "ledger_invariant p st"
  shows "ledger_invariant p st'"
  using assms
proof (induction rule: dispatch_step.induct)
  case (yield st ph t ts r s')
  from process_note_id[OF yield(2)] have "result_id r = task_note_id t" .
  with yield(1,3) show ?case by (auto simp: ledger_invariant_def)
next
  case (resume st ph)
  then show ?case
    by (cases ph) (auto simp: ledger_invariant_def drain_control_def)
next
  case (completed st ph finished)
  then show ?case by (auto simp: ledger_invariant_def)
qed (auto simp: ledger_invariant_def drain_control_def)

lemma ledger_reaches:
  assumes "dispatch_reaches co p names docs s st"
  shows "ledger_invariant p st"
  using assms unfolding dispatch_reaches_def
proof (induction rule: rtranclp_induct)
  case base
  show ?case by (simp add: ledger_invariant_def initial_dispatcher_def)
next
  case (step y z)
  from ledger_step[OF step(2) step(3)] show ?case .
qed

lemma idle_step:
  assumes "dispatch_step co p names st st'" and "idle_invariant p s st"
  shows "idle_invariant p s st'"
  using assms
  by (induction rule: dispatch_step.induct) (auto simp: idle_invariant_def drain_control_def)

lemma idle_reaches:
  assumes "dispatch_reaches co p names docs s st"
    and "\<forall>d\<in>set docs. JStr (fst d) \<in> completed_ids p"
  shows "idle_invariant p s st"
  using assms(1) unfolding dispatch_reaches_def
proof (induction rule: rtranclp_induct)
  case base
  show ?case using assms(2) by (simp add: idle_invariant_def initial_dispatcher_def)
next
  case (step y z)
  from idle_step[OF step(2) step(3)] show ?case .
qed

lemma skip_all:
  assumes "\<forall>d\<in>set docs. JStr (fst d) \<in> completed_ids p"
  shows "rtranclp (dispatch_step co p names)
           \<lparr>remaining = docs, pending_tasks = [], submitted = [], yielded = [], client_state = s,
            control = Pulling\<rparr>
           \<lparr>remaining = [], pending_tasks = [], submitted = [], yielded = [], client_state = s,
            control = Finished\<rparr>"
  using assms
proof (induction docs)
  case Nil
  have "dispatch_step co p names
           \<lparr>remaining = [], pending_tasks = [], submitted = [], yielded = [], client_state = s,
            control = Pulling\<rparr>
           (\<lparr>remaining = [], pending_tasks = [], submitted = [], yielded = [], client_state = s,
            control = Pulling\<rparr>\<lparr>control := drain_control (pending_tasks \<lparr>remaining = [], pending_tasks = [], submitted = [], yielded = [], client_state = s,
            control = Pulling\<rparr>)\<rparr>)"
    by (rule dispatch_step.exhausted) simp_all
  then show ?case by (simp add: drain_control_def)
next
  case (Cons d docs)
  obtain note_id note_text where d: "d = (note_id, note_text)" by (cases d)
  have "dispatch_step co p names
           \<lparr>remaining = d # docs, pending_tasks = [], submitted = [], yielded = [], client_state = s,
            control = Pulling\<rparr>
           (\<lparr>remaining = d # docs, pending_tasks = [], submitted = [], yielded = [], client_state = s,
            control = Pulling\<rparr>\<lparr>remaining := docs\<rparr>)"
    using Cons.prems by (intro dispatch_step.skip[where note_id=note_id and note_text=note_text]) (simp_all add: d)
  then have "dispatch_step co p names
           \<lparr>remaining = d # docs, pending_tasks = [], submitted = [], yielded = [], client_state = s,
            control = Pulling\<rparr>
           \<lparr>remaining = docs, pending_tasks = [], submitted = [], yielded = [], client_state = s,
            control = Pulling\<rparr>" by simp
  moreover have "rtranclp (dispatch_step co p names)
           \<lparr>remaining = docs, pending_tasks = [], submitted = [], yielded = [], client_state = s,
            control = Pulling\<rparr>
           \<lparr>remaining = [], pending_tasks = [], submitted = [], yielded = [], client_state = s,
            control = Finished\<rparr>"
    using Cons by simp
  ultimately show ?case by (rule converse_rtranclp_into_rtranclp)
qed

text \<open>
  Claim C8, as the code has it. With a concurrency cap \<open>C \<ge> 1\<close>, in every state that a run of
  the dispatcher reaches, the set of submitted tasks that have not been collected holds at
  most \<open>2C\<close> tasks, and fewer than \<open>2C\<close> whenever the dispatcher is about to pull the next
  note; when the set holds \<open>2C\<close> tasks the dispatcher is suspended in the wait inside the
  loop over the input. From a wait, no continuation of the run pulls a note before a result
  has been yielded: at least one task has completed and been collected first. And one
  completion is enough: for every pending task whose extraction returns, the run can go on
  from the wait by collecting that task alone, with all the other tasks still pending, to
  the point where the next note is pulled.
\<close>

theorem pending_tasks_bounded:
  assumes "0 < max_parallel_requests p"
    and "dispatch_reaches co p names docs s st"
  shows "length (pending_tasks st) \<le> 2 * max_parallel_requests p
     \<and> (control st = Pulling \<longrightarrow> length (pending_tasks st) < 2 * max_parallel_requests p)
     \<and> (length (pending_tasks st) = 2 * max_parallel_requests p \<longrightarrow>
           control st = Waiting Feeding)
     \<and> (\<forall>ph st'. control st = Waiting ph \<longrightarrow>
           rtranclp (dispatch_step co p names) st st' \<longrightarrow>
           remaining st' \<noteq> remaining st \<longrightarrow>
           length (yielded st) < length (yielded st'))
     \<and> (\<forall>t r s'. control st = Waiting Feeding \<longrightarrow> t \<in> set (pending_tasks st) \<longrightarrow>
           process_note co p (task_note_id t) (task_note_text t) names (client_state st)
             = (Inr r, s') \<longrightarrow>
           rtranclp (dispatch_step co p names) st
             (st\<lparr>pending_tasks := filter (\<lambda>u. u \<noteq> t) (pending_tasks st),
                 yielded := yielded st @ [r], client_state := s', control := Pulling\<rparr>))"
proof -
  from slack_reaches[OF assms(2,1)]
  have a: "length (pending_tasks st) \<le> 2 * max_parallel_requests p"
    and b: "control st = Pulling \<longrightarrow> length (pending_tasks st) < 2 * max_parallel_requests p"
    and c: "length (pending_tasks st) = 2 * max_parallel_requests p \<longrightarrow>
           control st = Waiting Feeding"
    by (auto simp: slack_invariant_def)
  have d: "\<forall>ph st'. control st = Waiting ph \<longrightarrow>
           rtranclp (dispatch_step co p names) st st' \<longrightarrow>
           remaining st' \<noteq> remaining st \<longrightarrow>
           length (yielded st) < length (yielded st')"
  proof (intro allI impI)
    fix ph st'
    assume "control st = Waiting ph" and "rtranclp (dispatch_step co p names) st st'"
      and n: "remaining st' \<noteq> remaining st"
    from wait_run[OF this(2,1)] n show "length (yielded st) < length (yielded st')"
      by (auto simp: wait_invariant_def)
  qed
  have e: "\<forall>t r s'. control st = Waiting Feeding \<longrightarrow> t \<in> set (pending_tasks st) \<longrightarrow>
           process_note co p (task_note_id t) (task_note_text t) names (client_state st)
             = (Inr r, s') \<longrightarrow>
           rtranclp (dispatch_step co p names) st
             (st\<lparr>pending_tasks := filter (\<lambda>u. u \<noteq> t) (pending_tasks st),
                 yielded := yielded st @ [r], client_state := s', control := Pulling\<rparr>)"
  proof (intro allI impI)
    fix t r s'
    assume w: "control st = Waiting Feeding" and t: "t \<in> set (pending_tasks st)"
      and pn: "process_note co p (task_note_id t) (task_note_text t) names (client_state st)
             = (Inr r, s')"
    from collect_one[OF w t pn]
    show "rtranclp (dispatch_step co p names) st
             (st\<lparr>pending_tasks := filter (\<lambda>u. u \<noteq> t) (pending_tasks st),
                 yielded := yielded st @ [r], client_state := s', control := Pulling\<rparr>)"
      by simp
  qed
  from a b c d e show ?thesis by blast
qed

theorem pending_tasks_bounded_witness:
  "0 < max_parallel_requests (resumed_processor {} 1)
   \<and> dispatch_reaches (example_collaborators [(''one'', JObj [(''dx'', JStr ''flu'')])])
        (resumed_processor {} 1) None
        [(''A'', ''text A''), (''B'', ''text B''), (''C'', ''text C'')]
        [Returned (simulated_success ''one'')]
        \<lparr>remaining = [(''C'', ''text C'')],
         pending_tasks = [\<lparr>task_index = 0, task_note_id = ''A'', task_note_text = ''text A''\<rparr>,
                          \<lparr>task_index = 1, task_note_id = ''B'', task_note_text = ''text B''\<rparr>],
         submitted = [\<lparr>task_index = 0, task_note_id = ''A'', task_note_text = ''text A''\<rparr>,
                      \<lparr>task_index = 1, task_note_id = ''B'', task_note_text = ''text B''\<rparr>],
         yielded = [], client_state = [Returned (simulated_success ''one'')],
         control = Waiting Feeding\<rparr>
   \<and> length [\<lparr>task_index = 0, task_note_id = ''A'', task_note_text = ''text A''\<rparr>,
             \<lparr>task_index = 1, task_note_id = ''B'', task_note_text = ''text B''\<rparr>]
       = 2 * max_parallel_requests (resumed_processor {} 1)
   \<and> rtranclp (dispatch_step (example_collaborators [(''one'', JObj [(''dx'', JStr ''flu'')])])
                (resumed_processor {} 1) None)
        \<lparr>remaining = [(''C'', ''text C'')],
         pending_tasks = [\<lparr>task_index = 0, task_note_id = ''A'', task_note_text = ''text A''\<rparr>,
                          \<lparr>task_index = 1, task_note_id = ''B'', task_note_text = ''text B''\<rparr>],
         submitted = [\<lparr>task_index = 0, task_note_id = ''A'', task_note_text = ''text A''\<rparr>,
                      \<lparr>task_index = 1, task_note_id = ''B'', task_note_text = ''text B''\<rparr>],
         yielded = [], client_state = [Returned (simulated_success ''one'')],
         control = Waiting Feeding\<rparr>
        \<lparr>remaining = [(''C'', ''text C'')],
         pending_tasks = [\<lparr>task_index = 1, task_note_id = ''B'', task_note_text = ''text B''\<rparr>],
         submitted = [\<lparr>task_index = 0, task_note_id = ''A'', task_note_text = ''text A''\<rparr>,
                      \<lparr>task_index = 1, task_note_id = ''B'', task_note_text = ''text B''\<rparr>],
         yielded = [\<lparr>result_id = ''A'',
                     extraction = [(''dx'', \<lparr>answer = JStr ''flu'', reasoning = None,
                                            grounding = None\<rparr>)],
                     result_errors = [], success = True, chunks = None, usage = None,
                     result_error = None, raw_response = None\<rparr>],
         client_state = [], control = Pulling\<rparr>
   \<and> rtranclp (dispatch_step (example_collaborators [(''one'', JObj [(''dx'', JStr ''flu'')])])
                (resumed_processor {} 1) None)
        \<lparr>remaining = [(''C'', ''text C'')],
         pending_tasks = [\<lparr>task_index = 0, task_note_id = ''A'', task_note_text = ''text A''\<rparr>,
                          \<lparr>task_index = 1, task_note_id = ''B'', task_note_text = ''text B''\<rparr>],
         submitted = [\<lparr>task_index = 0, task_note_id = ''A'', task_note_text = ''text A''\<rparr>,
                      \<lparr>task_index = 1, task_note_id = ''B'', task_note_text = ''text B''\<rparr>],
         yielded = [], client_state = [Returned (simulated_success ''one'')],
         control = Waiting Feeding\<rparr>
        \<lparr>remaining = [],
         pending_tasks = [\<lparr>task_index = 1, task_note_id = ''B'', task_note_text = ''text B''\<rparr>,
                          \<lparr>task_index = 2, task_note_id = ''C'', task_note_text = ''text C''\<rparr>],
         submitted = [\<lparr>task_index = 0, task_note_id = ''A'', task_note_text = ''text A''\<rparr>,
                      \<lparr>task_index = 1, task_note_id = ''B'', task_note_text = ''text B''\<rparr>,
                      \<lparr>task_index = 2, task_note_id = ''C'', task_note_text = ''text C''\<rparr>],
         yielded = [\<lparr>result_id = ''A'',
                     extraction = [(''dx'', \<lparr>answer = JStr ''flu'', reasoning = None,
                                            grounding = None\<rparr>)],
                     result_errors = [], success = True, chunks = None, usage = None,
                     result_error = None, raw_response = None\<rparr>],
         client_state = [], control = Waiting Feeding\<rparr>
   \<and> length ([] :: document_result list)
       < length [\<lparr>result_id = ''A'',
                  extraction = [(''dx'', \<lparr>answer = JStr ''flu'', reasoning = None,
                                         grounding = None\<rparr>)],
                  result_errors = [], success = True, chunks = None, usage = None,
                  result_error = None, raw_response = None\<rparr>]"
proof -
  let ?co = "example_collaborators [(''one'', JObj [(''dx'', JStr ''flu'')])]"
  let ?p = "resumed_processor {} 1"
  let ?script = "[Returned (simulated_success ''one'')]"
  let ?docs = "[(''A'', ''text A''), (''B'', ''text B''), (''C'', ''text C'')]"
  let ?tA = "\<lparr>task_index = 0, task_note_id = ''A'', task_note_text = ''text A''\<rparr>"
  let ?tB = "\<lparr>task_index = 1, task_note_id = ''B'', task_note_text = ''text B''\<rparr>"
  let ?tC = "\<lparr>task_index = 2, task_note_id = ''C'', task_note_text = ''text C''\<rparr>"
  let ?r = "\<lparr>result_id = ''A'',
            extraction = [(''dx'', \<lparr>answer = JStr ''flu'', reasoning = None, grounding = None\<rparr>)],
            result_errors = [], success = True, chunks = None, usage = None,
            result_error = None, raw_response = None\<rparr>"
  let ?d0 = "initial_dispatcher ?docs ?script"
  let ?d1 = "\<lparr>remaining = [(''B'', ''text B''), (''C'', ''text C'')], pending_tasks = [?tA],
             submitted = [?tA], yielded = [], client_state = ?script, control = Pulling\<rparr>"
  let ?full = "\<lparr>remaining = [(''C'', ''text C'')], pending_tasks = [?tA, ?tB],
               submitted = [?tA, ?tB], yielded = [], client_state = ?script,
               control = Waiting Feeding\<rparr>"
  let ?after = "\<lparr>remaining = [(''C'', ''text C'')], pending_tasks = [?tB],
                submitted = [?tA, ?tB], yielded = [?r],
                client_state = [] :: call_outcome list, control = Pulling\<rparr>"
  let ?next = "\<lparr>remaining = [], pending_tasks = [?tB, ?tC],
               submitted = [?tA, ?tB, ?tC], yielded = [?r],
               client_state = [] :: call_outcome list, control = Waiting Feeding\<rparr>"
  have h: "0 < max_parallel_requests ?p" by (simp add: resumed_processor_def)
  have pn: "process_note ?co ?p ''A'' ''text A'' None ?script = (Inr ?r, [])"
    by code_simp
  have 1: "dispatch_step ?co ?p None ?d0 ?d1"
    using dispatch_step.submit[where co="?co" and p="?p" and element_names=None and st="?d0"
        and note_id="''A''" and note_text="''text A''"
        and rest="[(''B'', ''text B''), (''C'', ''text C'')]" and semaphore_value=1 and t="?tA"]
    by (simp add: initial_dispatcher_def resumed_processor_def example_processor_def)
  have 2: "dispatch_step ?co ?p None ?d1 ?full"
    using dispatch_step.submit[where co="?co" and p="?p" and element_names=None and st="?d1"
        and note_id="''B''" and note_text="''text B''" and rest="[(''C'', ''text C'')]"
        and semaphore_value=1 and t="?tB"]
    by (simp add: resumed_processor_def example_processor_def)
  have reach: "dispatch_reaches ?co ?p None ?docs ?script ?full"
    unfolding dispatch_reaches_def
    using 1 2 by (meson rtranclp.rtrancl_into_rtrancl rtranclp.rtrancl_refl)
  note b = pending_tasks_bounded [OF h reach]
  from b have full: "length (pending_tasks ?full) \<le> 2 * max_parallel_requests ?p"
    by (rule conjunct1)
  have w: "control ?full = Waiting Feeding" by simp
  have t: "?tA \<in> set (pending_tasks ?full)" by simp
  have pn': "process_note ?co ?p (task_note_id ?tA) (task_note_text ?tA) None
               (client_state ?full) = (Inr ?r, [])"
    using pn by simp
  from b w t pn' have "rtranclp (dispatch_step ?co ?p None) ?full
             (?full\<lparr>pending_tasks := filter (\<lambda>u. u \<noteq> ?tA) (pending_tasks ?full),
                 yielded := yielded ?full @ [?r], client_state := [], control := Pulling\<rparr>)"
    by blast
  then have one: "rtranclp (dispatch_step ?co ?p None) ?full ?after" by simp
  have 3: "dispatch_step ?co ?p None ?after ?next"
    using dispatch_step.submit[where co="?co" and p="?p" and element_names=None and st="?after"
        and note_id="''C''" and note_text="''text C''" and rest="[]"
        and semaphore_value=1 and t="?tC"]
    by (simp add: resumed_processor_def example_processor_def)
  from one 3 have run: "rtranclp (dispatch_step ?co ?p None) ?full ?next"
    by (rule rtranclp.rtrancl_into_rtrancl)
  have n: "remaining ?next \<noteq> remaining ?full" by simp
  from b w run n have "length (yielded ?full) < length (yielded ?next)" by blast
  then have grown: "length ([] :: document_result list) < length [?r]" by simp
  have two: "length [?tA, ?tB] = 2 * max_parallel_requests ?p"
    by (simp add: resumed_processor_def)
  from h reach two one run grown show ?thesis by blast
qed

text \<open>
  Claim C8 as stated, for every cap, fails for the cap \<open>C = 0\<close> (which
  \<^verbatim>\<open>asyncio.Semaphore\<close> accepts): the task is added before the size is tested, so at the wait
  that follows the first submission one task is outstanding, more than \<open>2C = 0\<close>.
\<close>

theorem zero_cap_exceeds_bound:
  "dispatch_reaches (example_collaborators []) (resumed_processor {} 0) None [(''A'', ''text'')] []
        \<lparr>remaining = [], pending_tasks = [\<lparr>task_index = 0, task_note_id = ''A'', task_note_text = ''text''\<rparr>],
         submitted = [\<lparr>task_index = 0, task_note_id = ''A'', task_note_text = ''text''\<rparr>],
         yielded = [], client_state = [], control = Waiting Feeding\<rparr>
   \<and> 2 * max_parallel_requests (resumed_processor {} 0)
       < length (pending_tasks
           \<lparr>remaining = [], pending_tasks = [\<lparr>task_index = 0, task_note_id = ''A'', task_note_text = ''text''\<rparr>],
            submitted = [\<lparr>task_index = 0, task_note_id = ''A'', task_note_text = ''text''\<rparr>],
            yielded = [], client_state = [] :: call_outcome list, control = Waiting Feeding\<rparr>)"
proof -
  let ?co = "example_collaborators []"
  let ?p = "resumed_processor {} 0"
  let ?t = "\<lparr>task_index = 0, task_note_id = ''A'', task_note_text = ''text''\<rparr>"
  let ?s1 = "\<lparr>remaining = [], pending_tasks = [?t], submitted = [?t], yielded = [],
             client_state = [] :: call_outcome list, control = Waiting Feeding\<rparr>"
  have "dispatch_step ?co ?p None (initial_dispatcher [(''A'', ''text'')] []) ?s1"
    using dispatch_step.submit[where co="?co" and p="?p" and element_names=None
        and st="initial_dispatcher [(''A'', ''text'')] []" and note_id="''A''"
        and note_text="''text''" and rest="[]" and semaphore_value=0 and t="?t"]
    by (simp add: initial_dispatcher_def resumed_processor_def example_processor_def)
  then have "dispatch_reaches ?co ?p None [(''A'', ''text'')] [] ?s1"
    unfolding dispatch_reaches_def by (rule r_into_rtranclp)
  moreover have "2 * max_parallel_requests ?p < length (pending_tasks ?s1)"
    by (simp add: resumed_processor_def)
  ultimately show ?thesis by blast
qed

text \<open>
  Claim C4. In every state of a run over any input, no task was ever submitted for a note
  whose id is in the ledger's id set, and no result was yielded for one. When every note id
  of the input is in the id set, nothing is submitted, nothing is yielded and the client's
  state is untouched (no generation call is made, whatever the client: a counting client
  keeps its count) in every state of the run, and the run can finish, with an empty output
  sequence.
\<close>

theorem ledger_ids_skipped:
  assumes "dispatch_reaches co p names docs s st"
  shows "(\<forall>t\<in>set (submitted st). JStr (task_note_id t) \<notin> completed_ids p)
     \<and> (\<forall>r\<in>set (yielded st). JStr (result_id r) \<notin> completed_ids p)
     \<and> ((\<forall>d\<in>set docs. JStr (fst d) \<in> completed_ids p) \<longrightarrow>
           submitted st = [] \<and> yielded st = [] \<and> client_state st = s
         \<and> dispatch_reaches co p names docs s
              \<lparr>remaining = [], pending_tasks = [], submitted = [], yielded = [],
               client_state = s, control = Finished\<rparr>)"
proof -
  note li = ledger_reaches[OF assms, unfolded ledger_invariant_def]
  have a: "\<forall>t\<in>set (submitted st). JStr (task_note_id t) \<notin> completed_ids p"
    using li by blast
  have b: "\<forall>r\<in>set (yielded st). JStr (result_id r) \<notin> completed_ids p"
    using li by metis
  have c: "(\<forall>d\<in>set docs. JStr (fst d) \<in> completed_ids p) \<longrightarrow>
           submitted st = [] \<and> yielded st = [] \<and> client_state st = s
         \<and> dispatch_reaches co p names docs s
              \<lparr>remaining = [], pending_tasks = [], submitted = [], yielded = [],
               client_state = s, control = Finished\<rparr>"
  proof
    assume h: "\<forall>d\<in>set docs. JStr (fst d) \<in> completed_ids p"
    from idle_reaches[OF assms h]
    have "submitted st = [] \<and> yielded st = [] \<and> client_state st = s"
      by (simp add: idle_invariant_def)
    moreover have "dispatch_reaches co p names docs s
              \<lparr>remaining = [], pending_tasks = [], submitted = [], yielded = [],
               client_state = s, control = Finished\<rparr>"
      unfolding dispatch_reaches_def initial_dispatcher_def by (rule skip_all[OF h])
    ultimately show "submitted st = [] \<and> yielded st = [] \<and> client_state st = s
         \<and> dispatch_reaches co p names docs s
              \<lparr>remaining = [], pending_tasks = [], submitted = [], yielded = [],
               client_state = s, control = Finished\<rparr>" by blast
  qed
  from a b c show ?thesis by blast
qed

theorem ledger_ids_skipped_witness:
  "dispatch_reaches (example_collaborators [(''one'', JObj [(''dx'', JStr ''flu'')])])
      (resumed_processor {JStr ''A''} 5) None [(''A'', ''text A''), (''B'', ''text B'')]
      [Returned (simulated_success ''one'')]
      \<lparr>remaining = [], pending_tasks = [],
       submitted = [\<lparr>task_index = 0, task_note_id = ''B'', task_note_text = ''text B''\<rparr>],
       yielded = [\<lparr>result_id = ''B'',
                   extraction = [(''dx'', \<lparr>answer = JStr ''flu'', reasoning = None, grounding = None\<rparr>)],
                   result_errors = [], success = True, chunks = None, usage = None,
                   result_error = None, raw_response = None\<rparr>],
       client_state = [], control = Finished\<rparr>
   \<and> JStr ''B'' \<notin> completed_ids (resumed_processor {JStr ''A''} 5)
   \<and> JStr (fst (''A'', ''text A'')) \<in> completed_ids (resumed_processor {JStr ''A''} 5)
   \<and> dispatch_reaches (example_collaborators [(''one'', JObj [(''dx'', JStr ''flu'')])])
      (resumed_processor {JStr ''A''} 5) None [(''A'', ''text A'')]
      [Returned (simulated_success ''one'')]
      \<lparr>remaining = [], pending_tasks = [], submitted = [], yielded = [],
       client_state = [Returned (simulated_success ''one'')], control = Finished\<rparr>"
proof -
  let ?co = "example_collaborators [(''one'', JObj [(''dx'', JStr ''flu'')])]"
  let ?p = "resumed_processor {JStr ''A''} 5"
  let ?script = "[Returned (simulated_success ''one'')]"
  let ?t = "\<lparr>task_index = 0, task_note_id = ''B'', task_note_text = ''text B''\<rparr>"
  let ?r = "\<lparr>result_id = ''B'',
            extraction = [(''dx'', \<lparr>answer = JStr ''flu'', reasoning = None, grounding = None\<rparr>)],
            result_errors = [], success = True, chunks = None, usage = None,
            result_error = None, raw_response = None\<rparr>"
  let ?d0 = "initial_dispatcher [(''A'', ''text A''), (''B'', ''text B'')] ?script"
  let ?d1 = "\<lparr>remaining = [(''B'', ''text B'')], pending_tasks = [], submitted = [], yielded = [],
             client_state = ?script, control = Pulling\<rparr>"
  let ?d2 = "\<lparr>remaining = [], pending_tasks = [?t], submitted = [?t], yielded = [],
             client_state = ?script, control = Pulling\<rparr>"
  let ?d3 = "\<lparr>remaining = [], pending_tasks = [?t], submitted = [?t], yielded = [],
             client_state = ?script, control = Waiting Draining\<rparr>"
  let ?d4 = "\<lparr>remaining = [], pending_tasks = [], submitted = [?t], yielded = [],
             client_state = ?script, control = Yielding Draining [?t]\<rparr>"
  let ?d5 = "\<lparr>remaining = [], pending_tasks = [], submitted = [?t], yielded = [?r],
             client_state = [] :: call_outcome list, control = Yielding Draining []\<rparr>"
  let ?d6 = "\<lparr>remaining = [], pending_tasks = [], submitted = [?t], yielded = [?r],
             client_state = [] :: call_outcome list, control = Finished\<rparr>"
  have ids: "completed_ids ?p = {JStr ''A''}" "max_parallel_requests ?p = 5"
    by (simp_all add: resumed_processor_def)
  have pn: "process_note ?co ?p ''B'' ''text B'' None ?script = (Inr ?r, [])"
    by code_simp
  have 1: "dispatch_step ?co ?p None ?d0 ?d1"
    using dispatch_step.skip[where co="?co" and p="?p" and element_names=None and st="?d0"
        and note_id="''A''" and note_text="''text A''" and rest="[(''B'', ''text B'')]"]
    by (simp add: initial_dispatcher_def ids)
  have 2: "dispatch_step ?co ?p None ?d1 ?d2"
    using dispatch_step.submit[where co="?co" and p="?p" and element_names=None and st="?d1"
        and note_id="''B''" and note_text="''text B''" and rest="[]" and semaphore_value=5
        and t="?t"]
    by (simp add: ids)
  have 3: "dispatch_step ?co ?p None ?d2 ?d3"
    using dispatch_step.exhausted[where co="?co" and p="?p" and element_names=None and st="?d2"]
    by (simp add: drain_control_def)
  have 4: "dispatch_step ?co ?p None ?d3 ?d4"
    using dispatch_step.completed[where co="?co" and p="?p" and element_names=None and st="?d3"
        and ph=Draining and finished="[?t]"]
    by simp
  have 5: "dispatch_step ?co ?p None ?d4 ?d5"
    using dispatch_step.yield[where co="?co" and p="?p" and element_names=None and st="?d4"
        and ph=Draining and t="?t" and ts="[]" and r="?r" and s'="[]"] pn
    by simp
  have 6: "dispatch_step ?co ?p None ?d5 ?d6"
    using dispatch_step.resume[where co="?co" and p="?p" and element_names=None and st="?d5"
        and ph=Draining]
    by (simp add: drain_control_def)
  have reach: "dispatch_reaches ?co ?p None [(''A'', ''text A''), (''B'', ''text B'')] ?script ?d6"
    unfolding dispatch_reaches_def
    using 1 2 3 4 5 6 by (meson rtranclp.rtrancl_into_rtrancl rtranclp.rtrancl_refl)
  from ledger_ids_skipped [OF reach]
  have a: "JStr ''B'' \<notin> completed_ids ?p" by simp
  have init: "dispatch_reaches ?co ?p None [(''A'', ''text A'')] ?script
                (initial_dispatcher [(''A'', ''text A'')] ?script)"
    unfolding dispatch_reaches_def by simp
  have cov: "\<forall>d\<in>set [(''A'', ''text A'')]. JStr (fst d) \<in> completed_ids ?p"
    by (simp add: ids)
  from ledger_ids_skipped [OF init] cov
  have b: "dispatch_reaches ?co ?p None [(''A'', ''text A'')] ?script
      \<lparr>remaining = [], pending_tasks = [], submitted = [], yielded = [],
       client_state = ?script, control = Finished\<rparr>"
    by blast
  have c: "JStr (fst (''A'', ''text A'')) \<in> completed_ids ?p" by (simp add: ids)
  from reach a b c show ?thesis by blast
qed

section \<open>Properties of the sync bridge\<close>

text \<open>Whatever the consumer re-raises is an exception that the worker put on the queue.\<close>

lemma bridge_reraised_posted_step:
  assumes "bridge_step b b'"
    and "\<forall>e. consumer b = Reraised e \<longrightarrow> Error e \<in> set msgs"
    and "set (to_put b) \<union> set (queue b) \<subseteq> set msgs"
  shows "(\<forall>e. consumer b' = Reraised e \<longrightarrow> Error e \<in> set msgs)
       \<and> set (to_put b') \<union> set (queue b') \<subseteq> set msgs"
  using assms by (induction rule: bridge_step.induct) auto

lemma bridge_reraised_posted:
  assumes "bridge_reaches msgs b"
  shows "(\<forall>e. consumer b = Reraised e \<longrightarrow> Error e \<in> set msgs)
       \<and> set (to_put b) \<union> set (queue b) \<subseteq> set msgs"
  using assms unfolding bridge_reaches_def
proof (induction rule: rtranclp_induct)
  case base
  show ?case by (simp add: initial_bridge_def)
next
  case (step y z)
  from bridge_reraised_posted_step[OF step(2)] step(3) show ?case by blast
qed

text \<open>
  Claim C9 on a schedule of the two threads. A batch of one note is run with a client whose
  response has no \<^verbatim>\<open>"message"\<close> key: \<^verbatim>\<open>process_note\<close> raises \<^verbatim>\<open>KeyError\<close>, the exception leaves
  \<^verbatim>\<open>process_batch\<close>, and the worker has the entries \<^verbatim>\<open>("error", e)\<close> and \<^verbatim>\<open>("done", None)\<close> to put.
  If the consumer's \<^verbatim>\<open>get\<close> times out on the still empty queue, and the worker then puts both
  entries and its thread ends before the consumer evaluates \<^verbatim>\<open>t.is_alive()\<close>, the consumer
  leaves its loop: it has ended normally, the error entry is still in the queue, and no
  step of either thread remains. The exception is never re-raised.
\<close>

theorem bridge_can_lose_exception:
  "dispatch_reaches (example_collaborators []) (resumed_processor {} 5) None [(''id_1'', ''text 1'')]
      [Returned response_without_message]
      \<lparr>remaining = [], pending_tasks = [],
       submitted = [\<lparr>task_index = 0, task_note_id = ''id_1'', task_note_text = ''text 1''\<rparr>],
       yielded = [], client_state = [], control = Aborted (Raise KeyError ''message'')\<rparr>
   \<and> worker_messages
       \<lparr>remaining = [], pending_tasks = [],
        submitted = [\<lparr>task_index = 0, task_note_id = ''id_1'', task_note_text = ''text 1''\<rparr>],
        yielded = [], client_state = [] :: call_outcome list,
        control = Aborted (Raise KeyError ''message'')\<rparr>
     = [Error (Raise KeyError ''message''), Done]
   \<and> bridge_reaches [Error (Raise KeyError ''message''), Done]
       \<lparr>to_put = [], queue = [Error (Raise KeyError ''message''), Done], alive = False,
        consumer = Ended, delivered = []\<rparr>
   \<and> (\<forall>b. \<not> bridge_step
             \<lparr>to_put = [], queue = [Error (Raise KeyError ''message''), Done], alive = False,
              consumer = Ended, delivered = []\<rparr> b)"
proof -
  let ?co = "example_collaborators []"
  let ?p = "resumed_processor {} 5"
  let ?script = "[Returned response_without_message]"
  let ?t = "\<lparr>task_index = 0, task_note_id = ''id_1'', task_note_text = ''text 1''\<rparr>"
  let ?e = "Raise KeyError ''message''"
  let ?d0 = "initial_dispatcher [(''id_1'', ''text 1'')] ?script"
  let ?d1 = "\<lparr>remaining = [], pending_tasks = [?t], submitted = [?t], yielded = [],
             client_state = ?script, control = Pulling\<rparr>"
  let ?d2 = "\<lparr>remaining = [], pending_tasks = [?t], submitted = [?t], yielded = [],
             client_state = ?script, control = Waiting Draining\<rparr>"
  let ?d3 = "\<lparr>remaining = [], pending_tasks = [], submitted = [?t], yielded = [],
             client_state = ?script, control = Yielding Draining [?t]\<rparr>"
  let ?d4 = "\<lparr>remaining = [], pending_tasks = [], submitted = [?t], yielded = [],
             client_state = [] :: call_outcome list, control = Aborted ?e\<rparr>"
  have ids: "completed_ids ?p = {}" "max_parallel_requests ?p = 5"
    by (simp_all add: resumed_processor_def example_processor_def)
  have pn: "process_note ?co ?p ''id_1'' ''text 1'' None ?script = (Inl ?e, [])"
    by code_simp
  have 1: "dispatch_step ?co ?p None ?d0 ?d1"
    using dispatch_step.submit[where co="?co" and p="?p" and element_names=None and st="?d0"
        and note_id="''id_1''" and note_text="''text 1''" and rest="[]" and semaphore_value=5
        and t="?t"]
    by (simp add: initial_dispatcher_def ids)
  have 2: "dispatch_step ?co ?p None ?d1 ?d2"
    using dispatch_step.exhausted[where co="?co" and p="?p" and element_names=None and st="?d1"]
    by (simp add: drain_control_def)
  have 3: "dispatch_step ?co ?p None ?d2 ?d3"
    using dispatch_step.completed[where co="?co" and p="?p" and element_names=None and st="?d2"
        and ph=Draining and finished="[?t]"]
    by simp
  have 4: "dispatch_step ?co ?p None ?d3 ?d4"
    using dispatch_step.raise[where co="?co" and p="?p" and element_names=None and st="?d3"
        and ph=Draining and t="?t" and ts="[]" and e="?e" and s'="[]"] pn
    by simp
  have reach: "dispatch_reaches ?co ?p None [(''id_1'', ''text 1'')] ?script ?d4"
    unfolding dispatch_reaches_def
    using 1 2 3 4 by (meson rtranclp.rtrancl_into_rtrancl rtranclp.rtrancl_refl)
  have msgs: "worker_messages ?d4 = [Error ?e, Done]"
    by (simp add: worker_messages_def)
  let ?b0 = "initial_bridge [Error ?e, Done]"
  let ?b1 = "\<lparr>to_put = [Error ?e, Done], queue = [], alive = True, consumer = Checking,
             delivered = []\<rparr>"
  let ?b2 = "\<lparr>to_put = [Done], queue = [Error ?e], alive = True, consumer = Checking,
             delivered = []\<rparr>"
  let ?b3 = "\<lparr>to_put = [], queue = [Error ?e, Done], alive = True, consumer = Checking,
             delivered = []\<rparr>"
  let ?b4 = "\<lparr>to_put = [], queue = [Error ?e, Done], alive = False, consumer = Checking,
             delivered = []\<rparr>"
  let ?b5 = "\<lparr>to_put = [], queue = [Error ?e, Done], alive = False, consumer = Ended,
             delivered = []\<rparr>"
  have b1: "bridge_step ?b0 ?b1"
    using bridge_step.timeout[of ?b0] by (simp add: initial_bridge_def)
  have b2: "bridge_step ?b1 ?b2"
    using bridge_step.put[of ?b1 "Error ?e" "[Done]"] by simp
  have b3: "bridge_step ?b2 ?b3"
    using bridge_step.put[of ?b2 Done "[]"] by simp
  have b4: "bridge_step ?b3 ?b4"
    using bridge_step.exit[of ?b3] by simp
  have b5: "bridge_step ?b4 ?b5"
    using bridge_step.check_dead[of ?b4] by simp
  have lost: "bridge_reaches [Error ?e, Done] ?b5"
    unfolding bridge_reaches_def
    using b1 b2 b3 b4 b5 by (meson rtranclp.rtrancl_into_rtrancl rtranclp.rtrancl_refl)
  have stuck: "\<forall>b. \<not> bridge_step ?b5 b"
    by (auto elim: bridge_step.cases)
  from reach msgs lost stuck show ?thesis by blast
qed


end
